theory Spec2Isabelle
  imports Complex_Main
begin

section \<open>Python values shared by the training scripts\<close>

text \<open>
  The monitored metrics are Python floats. The loops only compare them with \<open><\<close>, so a
  float is a real number or one of the three special values; every comparison with
  \<open>nan\<close> is false, as in Python.
\<close>

datatype pyfloat = Finite real | PosInf | NegInf | NaN

fun float_lt :: "pyfloat \<Rightarrow> pyfloat \<Rightarrow> bool" where
  "float_lt NaN y = False"
| "float_lt x NaN = False"
| "float_lt (Finite a) (Finite b) = (a < b)"
| "float_lt (Finite a) PosInf = True"
| "float_lt NegInf (Finite b) = True"
| "float_lt NegInf PosInf = True"
| "float_lt x y = False"

text \<open>The exceptions that the modelled code can raise.\<close>

datatype error =
    NameError string
  | AttributeError string
  | ZeroDivisionError
  | TypeError string
  | ValueError string
  | IOError string
  | WandbError string
  | SeedError

section \<open>The checkpoint writer (experiments/sl/train.py)\<close>

text \<open>
  \<open>os.path.join(a, b)\<close> on POSIX for two components: an absolute \<open>b\<close> replaces \<open>a\<close>;
  otherwise \<open>b\<close> is appended, after a separator unless \<open>a\<close> is empty or ends with one.
\<close>

definition os_path_join :: "string \<Rightarrow> string \<Rightarrow> string" where
  "os_path_join a b =
     (if b \<noteq> [] \<and> hd b = CHR ''/'' then b
      else if a = [] \<or> last a = CHR ''/'' then a @ b
      else a @ ''/'' @ b)"

text \<open>
  The file system is a map from paths to file contents, together with the paths at which
  a file can be created or replaced (the directory exists and can be written). A saved
  checkpoint is a Python dict from string keys to state dicts (\<open>'sd\<close>). The logger's lines
  are kept in order.
\<close>

record 'sd world =
  files :: "string \<rightharpoonup> (string \<rightharpoonup> 'sd)"
  writable :: "string \<Rightarrow> bool"
  logs :: "string list"

definition logger_info :: "string \<Rightarrow> 'sd world \<Rightarrow> 'sd world" where
  "logger_info msg w = w\<lparr>logs := logs w @ [msg]\<rparr>"

text \<open>
  \<open>torch.save(obj, path)\<close> stores \<open>obj\<close> at \<open>path\<close>, replacing what was there; it raises
  when the file cannot be written (a missing or unwritable directory), and nothing is
  stored then.
\<close>

definition torch_save :: "(string \<rightharpoonup> 'sd) \<Rightarrow> string \<Rightarrow> 'sd world \<Rightarrow> error + 'sd world" where
  "torch_save obj path w =
     (if writable w path then Inr (w\<lparr>files := (files w)(path \<mapsto> obj)\<rparr>) else Inl (IOError path))"

text \<open>
  \<open>checkpoint(sfr, optimizer, save_dir, verbose)\<close>; the two arguments are given by their
  state dicts, which is all the function reads of them. The result is the returned path
  or the exception that \<open>torch.save\<close> raised, with the world as the call leaves it: after
  an exception the second log line is not written and no path is returned.
\<close>

definition checkpoint ::
  "'sd \<Rightarrow> 'sd \<Rightarrow> string \<Rightarrow> bool \<Rightarrow> 'sd world \<Rightarrow> (error + string) \<times> 'sd world" where
  "checkpoint sfr_state_dict optimizer_state_dict save_dir verbose w =
     (let w1 = (if verbose then logger_info ''Saving SFR and optimiser...'' w else w);
          state = [''model'' \<mapsto> sfr_state_dict, ''optimizer'' \<mapsto> optimizer_state_dict];
          fname = ''best_ckpt_dict.pt'';
          save_name = os_path_join save_dir fname
      in case torch_save state save_name w1 of
           Inl e \<Rightarrow> (Inl e, w1)
         | Inr w2 \<Rightarrow>
             (Inr save_name,
              if verbose then logger_info ''Finished saving model and optimiser etc'' w2 else w2))"

text \<open>
  Several calls for one run directory, one after the other, each on the world the one
  before left (a caller that catches the exception of a failed call and goes on).
\<close>

definition checkpoints :: "('sd \<times> 'sd \<times> bool) list \<Rightarrow> string \<Rightarrow> 'sd world \<Rightarrow> 'sd world" where
  "checkpoints calls save_dir w =
     foldl (\<lambda>w (m, opt, verbose). snd (checkpoint m opt save_dir verbose w)) w calls"

section \<open>Seeding and the backend flags (both entry points)\<close>

text \<open>
  The process-wide state the entry points touch: numpy's global generator, the generator
  of Python's \<open>random\<close> module, and the attributes of \<open>torch.backends.cudnn\<close> by name.
\<close>

record ('r, 'g) globals =
  np_rng :: 'r
  py_random :: 'g
  cudnn :: "string \<rightharpoonup> bool"

text \<open>
  Modelled from the spec: \<open>set_seed_everywhere\<close> (imported from the \<open>utils\<close> modules) is
  not among the source files. The spec says that it initialises the random seed and that
  this can fail (4.3, 7). So the call either raises, leaving the generators as they were,
  or installs in the global generators the states that belong to the seed. Which seeds are
  accepted and which states they give are parameters, as is the raw output \<open>py_next\<close> of
  the generator of \<open>random\<close>. \<open>SeedError\<close> stands for whatever the call raises.
\<close>

record ('r, 'g) seeding =
  accepts :: "int \<Rightarrow> bool"
  np_seed :: "int \<Rightarrow> 'r"
  py_seed :: "int \<Rightarrow> 'g"
  py_next :: "'g \<Rightarrow> nat \<times> 'g"

definition set_seed_everywhere ::
  "('r, 'g) seeding \<Rightarrow> int \<Rightarrow> ('r, 'g) globals \<Rightarrow> error + ('r, 'g) globals" where
  "set_seed_everywhere S seed g =
     (if accepts S seed then Inr (g\<lparr>np_rng := np_seed S seed, py_random := py_seed S seed\<rparr>)
      else Inl SeedError)"

text \<open>
  \<open>random.randint(a, b)\<close> returns an integer between \<open>a\<close> and \<open>b\<close>, both included, and
  advances the generator; \<open>py_next\<close> is the generator's raw output. The call raises on an
  empty range.
\<close>

definition random_randint ::
  "('g \<Rightarrow> nat \<times> 'g) \<Rightarrow> int \<Rightarrow> int \<Rightarrow> 'g \<Rightarrow> error + (int \<times> 'g)" where
  "random_randint nxt a b gen =
     (if b < a then Inl (ValueError ''empty range for randrange()'')
      else Inr (a + int (fst (nxt gen) mod nat (b - a + 1)), snd (nxt gen)))"

text \<open>
  The first statement of both \<open>train\<close> functions (experiments/sl/train.py lines 55-59,
  src/train.py lines 28-32):
  \<^verbatim>\<open>
  try:
      set_seed_everywhere(cfg.random_seed)
  except:
      random_seed = random.randint(0, 10000)
      set_seed_everywhere(random_seed)
  \<close>
  The second call stands in the handler, outside any \<open>try\<close>.
\<close>

definition make_reproducible ::
  "('r, 'g) seeding \<Rightarrow> int \<Rightarrow> ('r, 'g) globals \<Rightarrow> error + ('r, 'g) globals" where
  "make_reproducible S cfg_random_seed g =
     (case set_seed_everywhere S cfg_random_seed g of
        Inr g' \<Rightarrow> Inr g'
      | Inl e \<Rightarrow>
          (case random_randint (py_next S) 0 10000 (py_random g) of
             Inl e' \<Rightarrow> Inl e'
           | Inr (random_seed, gen') \<Rightarrow>
               set_seed_everywhere S random_seed (g\<lparr>py_random := gen'\<rparr>)))"

text \<open>
  \<^verbatim>\<open>torch.backends.cudnn.determinstic = True\<close> and
  \<^verbatim>\<open>torch.backends.cudnn.benchmark = False\<close> (src/train.py lines 37-38; the supervised script
  does the same through \<open>setattr\<close>, lines 69-70). An assignment sets the attribute of that
  very name.
\<close>

definition set_cudnn_flags :: "('r, 'g) globals \<Rightarrow> ('r, 'g) globals" where
  "set_cudnn_flags g = g\<lparr>cudnn := (cudnn g)(''determinstic'' \<mapsto> True, ''benchmark'' \<mapsto> False)\<rparr>"

section \<open>The supervised training loop (experiments/sl/train.py)\<close>

text \<open>How a loop body ends: the loop goes on, a \<open>break\<close>, or an exception.\<close>

datatype 'a flow = Continue 'a | Break 'a | Raise error

text \<open>
  What the loop does, in order. \<open>Step epoch k\<close> is the \<open>k\<close>-th mini-batch of the epoch
  (loss, \<open>zero_grad\<close>, \<open>backward\<close>, \<open>optimizer.step\<close>); \<open>Evaluate epoch nll\<close> is the
  computation of the validation loss and of the train, validation and test metrics, with
  the validation nll; \<open>Checkpoint epoch path\<close> is a call of \<open>checkpoint\<close> and the path it
  saves to; \<open>Consult epoch nll stop\<close> is the call \<open>early_stopper(nll)\<close> and its answer.
\<close>

datatype sl_event =
    Step nat nat
  | Evaluate nat pyfloat
  | Checkpoint nat string
  | Consult nat pyfloat bool

text \<open>
  The collaborators of the loop, which are external libraries or objects built from the
  configuration: the batches the training loader delivers in an epoch, one optimisation
  step on the model (SFR with its optimiser, \<open>'m\<close>), the validation nll that
  \<open>compute_metrics\<close> reports for a model, the two state dicts, and the early stopper as an
  object with a constructor (from the patience; its \<open>min_prior_precision\<close> is fixed by the
  configuration) and a call. These are taken to return. \<open>int_of_quotient a b\<close> is Python's
  \<open>int(a / b)\<close>, a division in floating point followed by a truncation, which raises for
  a zero divisor and for a quotient beyond the floats.

  \<open>wandb.log\<close> is called in the loop outside any test of \<open>cfg.wandb.use_wandb\<close> (lines
  151, 155, 177-180 and 185-186). After \<open>wandb.init\<close> it is taken to return as well. What
  it does when no run was initialised is the library's matter, and the loop is modelled for
  both answers: \<open>wandb_log_without_run\<close> is \<open>None\<close> if the call returns and \<open>Some e\<close> if it
  raises \<open>e\<close>.
\<close>

record ('m, 'b, 's, 'sd) sl_deps =
  train_loader :: "nat \<Rightarrow> 'b list"
  sgd_step :: "'b \<Rightarrow> 'm \<Rightarrow> 'm"
  val_nll :: "'m \<Rightarrow> pyfloat"
  sfr_state_dict :: "'m \<Rightarrow> 'sd"
  optimizer_state_dict :: "'m \<Rightarrow> 'sd"
  new_early_stopper :: "int \<Rightarrow> 's"
  early_stopper_call :: "pyfloat \<Rightarrow> 's \<Rightarrow> bool \<times> 's"
  int_of_quotient :: "int \<Rightarrow> int \<Rightarrow> error + int"
  wandb_log_without_run :: "error option"

record TrainConfig =
  random_seed :: int
  n_epochs :: int
  logging_epoch_freq :: int
  early_stop_patience :: int
  use_wandb :: bool
  wandb_run_dir :: string

record ('m, 's, 'sd) sl_state =
  sfr :: 'm
  early_stopper :: 's
  best_nll :: pyfloat
  disk :: "'sd world"

text \<open>
  \<open>run\<close> is assigned only under \<open>cfg.wandb.use_wandb\<close> (line 97); reading \<open>run.dir\<close>
  without it raises \<open>NameError\<close>. The field \<open>wandb_run_dir\<close> stands for the directory
  that \<open>wandb.init\<close> gives the run.
\<close>

definition wandb_log :: "('m, 'b, 's, 'sd) sl_deps \<Rightarrow> TrainConfig \<Rightarrow> error option" where
  "wandb_log D cfg = (if use_wandb cfg then None else wandb_log_without_run D)"

definition run_dir :: "TrainConfig \<Rightarrow> error + string" where
  "run_dir cfg = (if use_wandb cfg then Inr (wandb_run_dir cfg) else Inl (NameError ''run''))"

text \<open>
  Lines 182-186: the save when the validation nll is strictly below the best one. What
  \<open>checkpoint\<close> raises is not caught here, so the best nll stays as it was then.
\<close>

definition save_if_best ::
  "('m, 'b, 's, 'sd) sl_deps \<Rightarrow> TrainConfig \<Rightarrow> nat \<Rightarrow> pyfloat \<Rightarrow> ('m, 's, 'sd) sl_state
     \<Rightarrow> sl_event list \<times> (error + ('m, 's, 'sd) sl_state)" where
  "save_if_best D cfg epoch nll st =
     (if float_lt nll (best_nll st) then
        (case run_dir cfg of
           Inl e \<Rightarrow> ([], Inl e)
         | Inr save_dir \<Rightarrow>
             (case checkpoint (sfr_state_dict D (sfr st)) (optimizer_state_dict D (sfr st))
                     save_dir False (disk st) of
                (Inl e, w) \<Rightarrow>
                  ([Checkpoint epoch (os_path_join save_dir ''best_ckpt_dict.pt'')],
                   Inl e)
              | (Inr path, w) \<Rightarrow>
                  ([Checkpoint epoch path], Inr (st\<lparr>best_nll := nll, disk := w\<rparr>))))
      else ([], Inr st))"

text \<open>
  Lines 145-189: the body of \<open>for epoch in ...\<close>. A \<open>wandb.log\<close> that raises does so at
  its first call: after the first mini-batch (line 151) or, when the loader delivers no
  batch, after the validation loss (line 155), before the metrics are computed.
\<close>

definition epoch_body ::
  "('m, 'b, 's, 'sd) sl_deps \<Rightarrow> TrainConfig \<Rightarrow> nat \<Rightarrow> ('m, 's, 'sd) sl_state
     \<Rightarrow> sl_event list \<times> ('m, 's, 'sd) sl_state flow" where
  "epoch_body D cfg epoch st =
     (let batches = train_loader D epoch in
      case wandb_log D cfg of
        Some e \<Rightarrow>
          (if batches \<noteq> [] then ([Step epoch 0], Raise e)
           else if logging_epoch_freq cfg = 0 then ([], Raise ZeroDivisionError)
           else if int epoch mod logging_epoch_freq cfg = 0 then ([], Raise e)
           else ([], Continue st))
      | None \<Rightarrow>
          (let st1 = st\<lparr>sfr := fold (sgd_step D) batches (sfr st)\<rparr>;
               steps = map (Step epoch) [0..<length batches]
           in if logging_epoch_freq cfg = 0 then (steps, Raise ZeroDivisionError)
              else if int epoch mod logging_epoch_freq cfg = 0 then
                (let nll = val_nll D (sfr st1) in
                 case save_if_best D cfg epoch nll st1 of
                   (saved, Inl e) \<Rightarrow> (steps @ [Evaluate epoch nll] @ saved, Raise e)
                 | (saved, Inr st2) \<Rightarrow>
                     (let (stop, s) = early_stopper_call D nll (early_stopper st2);
                          st3 = st2\<lparr>early_stopper := s\<rparr>;
                          evs = steps @ [Evaluate epoch nll] @ saved @ [Consult epoch nll stop]
                      in if stop then
                           (evs, Break (st3\<lparr>disk := logger_info
                              ''Early stopping criteria met, stopping training...'' (disk st3)\<rparr>))
                         else (evs, Continue st3)))
              else (steps, Continue st1)))"

fun train_epochs ::
  "('m, 'b, 's, 'sd) sl_deps \<Rightarrow> TrainConfig \<Rightarrow> nat list \<Rightarrow> ('m, 's, 'sd) sl_state
     \<Rightarrow> sl_event list \<times> (error + ('m, 's, 'sd) sl_state)" where
  "train_epochs D cfg [] st = ([], Inr st)"
| "train_epochs D cfg (epoch # rest) st =
     (case epoch_body D cfg epoch st of
        (evs, Continue st') \<Rightarrow>
          (evs @ fst (train_epochs D cfg rest st'), snd (train_epochs D cfg rest st'))
      | (evs, Break st') \<Rightarrow> (evs, Inr st')
      | (evs, Raise e) \<Rightarrow> (evs, Inl e))"

text \<open>
  \<open>train(cfg)\<close> of the supervised script, from the seeding to the end of the epoch loop.
  The data sets, the network, SFR and the optimiser come from the configuration through
  hydra and torch; the model they give is \<open>sfr0\<close>.
\<close>

definition sl_train ::
  "('r, 'g) seeding \<Rightarrow> ('m, 'b, 's, 'sd) sl_deps \<Rightarrow> TrainConfig \<Rightarrow> 'm \<Rightarrow> 'sd world
     \<Rightarrow> ('r, 'g) globals
     \<Rightarrow> sl_event list \<times> (error + ('m, 's, 'sd) sl_state) \<times> ('r, 'g) globals" where
  "sl_train S D cfg sfr0 w g =
     (case make_reproducible S (random_seed cfg) g of
        Inl e \<Rightarrow> ([], Inl e, g)
      | Inr g1 \<Rightarrow>
          (let g2 = set_cudnn_flags g1 in
           case int_of_quotient D (early_stop_patience cfg) (logging_epoch_freq cfg) of
             Inl e \<Rightarrow> ([], Inl e, g2)
           | Inr p \<Rightarrow>
               (let st0 = \<lparr>sfr = sfr0, early_stopper = new_early_stopper D p,
                           best_nll = PosInf, disk = w\<rparr>;
                    (evs, r) = train_epochs D cfg [0..<nat (n_epochs cfg)] st0
                in (evs,
                    (case r of Inl e \<Rightarrow> Inl e
                     | Inr st \<Rightarrow> Inr (st\<lparr>disk := logger_info ''Finished training'' (disk st)\<rparr>)),
                    g2))))"

text \<open>
  What a list of steps says: the evaluations with their epoch and validation nll, and the
  calls of \<open>checkpoint\<close> with their epoch and path.
\<close>

fun evals :: "sl_event list \<Rightarrow> (nat \<times> pyfloat) list" where
  "evals [] = []"
| "evals (Evaluate e m # evs) = (e, m) # evals evs"
| "evals (ev # evs) = evals evs"

fun saves :: "sl_event list \<Rightarrow> (nat \<times> string) list" where
  "saves [] = []"
| "saves (Checkpoint e p # evs) = (e, p) # saves evs"
| "saves (ev # evs) = saves evs"

text \<open>
  Of a list of evaluations, those whose nll is strictly below the best nll seen so far,
  where \<open>b\<close> is the best one before the list and each of them becomes the best one;
  \<open>best_of b ms\<close> is the best one after the list.
\<close>

fun best_of :: "pyfloat \<Rightarrow> pyfloat list \<Rightarrow> pyfloat" where
  "best_of b [] = b"
| "best_of b (m # ms) = best_of (if float_lt m b then m else b) ms"

fun new_bests :: "pyfloat \<Rightarrow> (nat \<times> pyfloat) list \<Rightarrow> (nat \<times> pyfloat) list" where
  "new_bests b [] = []"
| "new_bests b ((e, m) # xs) =
     (if float_lt m b then (e, m) # new_bests m xs else new_bests b xs)"

section \<open>The MLP transition model (src/rl/models/transitions/mlp.py)\<close>

record 't StatePrediction =
  state_mean :: 't
  state_var :: int
  noise_var :: int

text \<open>
  The torch operations the module calls, on tensors \<open>'t\<close> and a network \<open>'n\<close> (the
  module with its optimiser). \<open>torch.concat\<close>, \<open>network.forward\<close> and \<open>+\<close> raise on
  shapes that do not fit. \<open>buffer_sample\<close> is \<open>replay_buffer.sample(batch_size)\<close>;
  \<open>fit_batch\<close> is the loss on a batch followed by \<open>zero_grad\<close>, \<open>backward\<close> and
  \<open>optimizer.step\<close>, giving the loss and the updated network; \<open>start_training\<close> is
  \<open>network.train()\<close> with the fresh Adam optimiser; \<open>stopper_reset\<close> and
  \<open>stopper_call\<close> are the methods of the early stopper.
\<close>

record ('n, 't, 'batch, 'buf, 's) mlp_deps =
  torch_concat :: "'t list \<Rightarrow> int \<Rightarrow> error + 't"
  forward :: "'n \<Rightarrow> 't \<Rightarrow> error + 't"
  tensor_add :: "'t \<Rightarrow> 't \<Rightarrow> error + 't"
  cuda :: "'n \<Rightarrow> 'n"
  start_training :: "'n \<Rightarrow> 'n"
  buffer_sample :: "int \<Rightarrow> 'buf \<Rightarrow> 'batch \<times> 'buf"
  fit_batch :: "'batch \<Rightarrow> 'n \<Rightarrow> pyfloat \<times> 'n"
  stopper_reset :: "'s \<Rightarrow> 's"
  stopper_call :: "pyfloat \<Rightarrow> 's \<Rightarrow> bool \<times> 's"

definition predict_fn ::
  "('n, 't, 'batch, 'buf, 's) mlp_deps \<Rightarrow> 'n \<Rightarrow> 't \<Rightarrow> 't \<Rightarrow> error + 't StatePrediction" where
  "predict_fn T network state action =
     (case torch_concat T [state, action] (- 1) of
        Inl e \<Rightarrow> Inl e
      | Inr state_action_input \<Rightarrow>
          (case forward T network state_action_input of
             Inl e \<Rightarrow> Inl e
           | Inr delta_state \<Rightarrow>
               (case tensor_add T state delta_state of
                  Inl e \<Rightarrow> Inl e
                | Inr mean \<Rightarrow> Inr \<lparr>state_mean = mean, state_var = 0, noise_var = 0\<rparr>)))"

text \<open>
  \<open>GradStep i loss\<close> is iteration \<open>i\<close> up to \<open>optimizer.step()\<close> and the logging of its
  loss (\<open>wandb.log\<close> and \<open>logger.info\<close>, taken to return); \<open>StopCheck i loss stop\<close> is the
  call \<open>early_stopper(loss)\<close> of that iteration.
\<close>

datatype mlp_event = GradStep nat pyfloat | StopCheck nat pyfloat bool

record ('n, 'buf, 's) mlp_state =
  network :: 'n
  samples_from :: 'buf
  stopper :: 's

text \<open>Lines 52-73, the body of \<open>for i in range(num_iterations)\<close>; the flag says \<open>break\<close>.\<close>

definition iteration_body ::
  "('n, 't, 'batch, 'buf, 's) mlp_deps \<Rightarrow> int \<Rightarrow> nat \<Rightarrow> ('n, 'buf, 's) mlp_state
     \<Rightarrow> mlp_event list \<times> bool \<times> ('n, 'buf, 's) mlp_state" where
  "iteration_body T batch_size i st =
     (let (samples, buf) = buffer_sample T batch_size (samples_from st);
          (loss, net) = fit_batch T samples (network st);
          (stop_flag, s) = stopper_call T loss (stopper st)
      in ([GradStep i loss, StopCheck i loss stop_flag], stop_flag,
          \<lparr>network = net, samples_from = buf, stopper = s\<rparr>))"

fun train_iterations ::
  "('n, 't, 'batch, 'buf, 's) mlp_deps \<Rightarrow> int \<Rightarrow> nat list \<Rightarrow> ('n, 'buf, 's) mlp_state
     \<Rightarrow> mlp_event list \<times> ('n, 'buf, 's) mlp_state" where
  "train_iterations T batch_size [] st = ([], st)"
| "train_iterations T batch_size (i # rest) st =
     (case iteration_body T batch_size i st of
        (evs, True, st') \<Rightarrow> (evs, st')
      | (evs, False, st') \<Rightarrow>
          (evs @ fst (train_iterations T batch_size rest st'),
           snd (train_iterations T batch_size rest st')))"

text \<open>
  \<open>train_fn(replay_buffer)\<close>. The stopper is the argument of \<open>init\<close>, whose default is
  \<open>None\<close>; \<open>early_stopper.reset()\<close> on \<open>None\<close> raises \<open>AttributeError\<close>.
\<close>

definition train_fn ::
  "('n, 't, 'batch, 'buf, 's) mlp_deps \<Rightarrow> int \<Rightarrow> int \<Rightarrow> 's option \<Rightarrow> 'n \<Rightarrow> 'buf
     \<Rightarrow> mlp_event list \<times> (error + ('n, 'buf, 's) mlp_state)" where
  "train_fn T num_iterations batch_size early_stopper_arg net replay_buffer =
     (case early_stopper_arg of
        None \<Rightarrow> ([], Inl (AttributeError ''reset''))
      | Some s \<Rightarrow>
          (let st0 = \<lparr>network = start_training T net, samples_from = replay_buffer,
                      stopper = stopper_reset T s\<rparr>;
               r = train_iterations T batch_size [0..<nat num_iterations] st0
           in (fst r, Inr (snd r))))"

text \<open>The iterations whose gradient step ran, in order.\<close>

fun grad_steps :: "mlp_event list \<Rightarrow> nat list" where
  "grad_steps [] = []"
| "grad_steps (GradStep i l # evs) = i # grad_steps evs"
| "grad_steps (ev # evs) = grad_steps evs"

definition dummy_update_fn :: "'x \<Rightarrow> 'y \<Rightarrow> unit" where
  "dummy_update_fn x y = ()"

subsection \<open>The callable bundle\<close>

text \<open>
  A \<open>NamedTuple\<close> class is given by its field names, in order. Calling the class with
  keyword arguments raises \<open>TypeError\<close> on a keyword that is no field and on a field
  without a keyword, and otherwise gives the values in field order.
\<close>

definition namedtuple_new :: "string list \<Rightarrow> (string \<times> 'v) list \<Rightarrow> error + (string \<times> 'v) list" where
  "namedtuple_new field_names kwargs =
     (if list_ex (\<lambda>k. k \<notin> set field_names) (map fst kwargs) then
        Inl (TypeError ''got an unexpected keyword argument'')
      else if list_ex (\<lambda>f. f \<notin> set (map fst kwargs)) field_names then
        Inl (TypeError ''missing required positional argument'')
      else Inr (concat (map (\<lambda>f. filter (\<lambda>kv. fst kv = f) kwargs) field_names)))"

text \<open>\<open>class TransitionModel(NamedTuple)\<close> of src/models/transitions/base.py, lines 13-15.\<close>

definition TransitionModel_fields :: "string list" where
  "TransitionModel_fields = [''predict'', ''train'']"

text \<open>The three closures that \<open>init\<close> bundles are of three different types.\<close>

datatype ('p, 'tr, 'u) callable = PredictFn 'p | TrainFn 'tr | UpdateFn 'u

fun contains :: "string \<Rightarrow> string \<Rightarrow> bool" where
  "contains sub [] = (sub = [])"
| "contains sub (c # cs) = (take (length sub) (c # cs) = sub \<or> contains sub cs)"

text \<open>The keyword arguments of the call in line 78.\<close>

definition init_kwargs :: "'p \<Rightarrow> 'tr \<Rightarrow> 'u \<Rightarrow> (string \<times> ('p, 'tr, 'u) callable) list" where
  "init_kwargs p t u = [(''predict'', PredictFn p), (''train'', TrainFn t), (''update'', UpdateFn u)]"

text \<open>
  \<open>init\<close>: the network (moved to the GPU when the device names cuda) and the bundle.
  \<open>TransitionModel\<close> is here the class that \<open>from .base import TransitionModel\<close> gives,
  the one of src/rl/models/transitions/base.py, which is not among the source files: its
  fields are the parameter \<open>cls_fields\<close>. The closures share the network with the caller,
  so they take it as an argument.
\<close>

definition init ::
  "('n, 't, 'batch, 'buf, 's) mlp_deps \<Rightarrow> string list \<Rightarrow> 'n \<Rightarrow> int \<Rightarrow> int \<Rightarrow> 's option \<Rightarrow> string
     \<Rightarrow> 'n \<times> (error + (string \<times>
          ('n \<Rightarrow> 't \<Rightarrow> 't \<Rightarrow> error + 't StatePrediction,
           'n \<Rightarrow> 'buf \<Rightarrow> mlp_event list \<times> (error + ('n, 'buf, 's) mlp_state),
           'x \<Rightarrow> 'y \<Rightarrow> unit) callable) list)" where
  "init T cls_fields net num_iterations batch_size early_stopper_arg device =
     (if contains ''cuda'' device then cuda T net else net,
      namedtuple_new cls_fields
        (init_kwargs (predict_fn T) (train_fn T num_iterations batch_size early_stopper_arg)
           dummy_update_fn))"

section \<open>The reinforcement-learning driver (src/train.py)\<close>

record RLConfig =
  rl_random_seed :: int
  num_train_episodes :: int
  init_random_episodes :: int
  episode_length :: int
  action_repeat :: int

text \<open>
  The collaborators: the environment (\<open>reset\<close>, \<open>step\<close>, the action spec), what the loop
  reads of a time step, \<open>np.random.uniform(low, high, shape)\<close> on numpy's global
  generator followed by \<open>astype\<close>, the agent's \<open>select_action(observation, eval_mode, t0)\<close>
  and \<open>train(replay_buffer)\<close>, and \<open>replay_buffer.add\<close> of the transition built from the
  observation before the step and the time step after it.
\<close>

record ('e, 'ts, 'obs, 'a, 'ag, 'buf, 'r, 'arr) rl_deps =
  env_reset :: "'e \<Rightarrow> 'ts \<times> 'e"
  env_step :: "'a \<Rightarrow> 'e \<Rightarrow> 'ts \<times> 'e"
  action_spec_shape :: "nat list"
  action_spec_dtype :: string
  ts_last :: "'ts \<Rightarrow> bool"
  ts_first :: "'ts \<Rightarrow> bool"
  ts_observation :: "'ts \<Rightarrow> 'obs"
  np_random_uniform :: "int \<Rightarrow> int \<Rightarrow> nat list \<Rightarrow> 'r \<Rightarrow> 'arr \<times> 'r"
  astype :: "'arr \<Rightarrow> string \<Rightarrow> 'a"
  select_action :: "'obs \<Rightarrow> bool \<Rightarrow> bool \<Rightarrow> 'ag \<Rightarrow> 'a \<times> 'ag"
  agent_train :: "'buf \<Rightarrow> 'ag \<Rightarrow> 'ag"
  buffer_add :: "'obs \<Rightarrow> 'ts \<Rightarrow> 'buf \<Rightarrow> 'buf"

record ('e, 'ag, 'buf, 'r) rl_state =
  env :: 'e
  agent :: 'ag
  replay_buffer :: 'buf
  rng :: 'r
  global_step :: nat

text \<open>
  The driver's steps, each with its episode index. \<open>EnvReset\<close> and \<open>EnvStep\<close> say whether
  the time step they return is the last one of the episode; \<open>RandomAction\<close> records the
  arguments of the draw (low, high, shape, dtype) and the action; \<open>PolicyAction\<close> is a
  call of \<open>agent.select_action\<close>; \<open>Collected ep t\<close> is the end of the collection loop
  after \<open>t\<close> steps; \<open>TrainAgent\<close> is a call of \<open>agent.train\<close>.
\<close>

datatype 'a rl_event =
    EnvReset nat bool
  | RandomAction nat int int "nat list" string 'a
  | PolicyAction nat 'a
  | EnvStep nat 'a bool
  | Collected nat nat
  | TrainAgent nat

text \<open>Lines 118-128: the action of one step.\<close>

definition choose_action ::
  "('e, 'ts, 'obs, 'a, 'ag, 'buf, 'r, 'arr) rl_deps \<Rightarrow> RLConfig \<Rightarrow> nat \<Rightarrow> 'ts
     \<Rightarrow> ('e, 'ag, 'buf, 'r) rl_state \<Rightarrow> 'a rl_event \<times> 'a \<times> ('e, 'ag, 'buf, 'r) rl_state" where
  "choose_action R cfg episode_idx time_step st =
     (if int episode_idx < init_random_episodes cfg then
        (let (arr, r) = np_random_uniform R (- 1) 1 (action_spec_shape R) (rng st);
             action = astype R arr (action_spec_dtype R)
         in (RandomAction episode_idx (- 1) 1 (action_spec_shape R) (action_spec_dtype R) action,
             action, st\<lparr>rng := r\<rparr>))
      else
        (let (action, ag) = select_action R (ts_observation R time_step) False
                              (ts_first R time_step) (agent st)
         in (PolicyAction episode_idx action, action, st\<lparr>agent := ag\<rparr>)))"

text \<open>
  Lines 117-155, \<open>while not time_step.last()\<close>. The environment decides when an episode
  ends, so the loop is given fuel: \<open>None\<close> says that the fuel ran out before a last time
  step came. The steps taken until then are listed in both cases.
\<close>

fun collect ::
  "('e, 'ts, 'obs, 'a, 'ag, 'buf, 'r, 'arr) rl_deps \<Rightarrow> RLConfig \<Rightarrow> nat \<Rightarrow> nat \<Rightarrow> 'ts \<Rightarrow> nat
     \<Rightarrow> ('e, 'ag, 'buf, 'r) rl_state
     \<Rightarrow> 'a rl_event list \<times> (nat \<times> ('e, 'ag, 'buf, 'r) rl_state) option" where
  "collect R cfg episode_idx 0 time_step t st =
     (if ts_last R time_step then ([], Some (t, st)) else ([], None))"
| "collect R cfg episode_idx (Suc fuel) time_step t st =
     (if ts_last R time_step then ([], Some (t, st))
      else
        (case choose_action R cfg episode_idx time_step st of
           (chosen, action, st1) \<Rightarrow>
             (case env_step R action (env st1) of
                (time_step', e) \<Rightarrow>
                  (let st2 = st1\<lparr>env := e,
                               replay_buffer := buffer_add R (ts_observation R time_step)
                                                  time_step' (replay_buffer st1),
                               global_step := global_step st1 + 1\<rparr>;
                       r = collect R cfg episode_idx fuel time_step' (t + 1) st2
                   in (chosen # EnvStep episode_idx action (ts_last R time_step') # fst r,
                       snd r)))))"

text \<open>Lines 112-188, the body of \<open>for episode_idx in range(cfg.num_train_episodes)\<close>.\<close>

definition episode_body ::
  "('e, 'ts, 'obs, 'a, 'ag, 'buf, 'r, 'arr) rl_deps \<Rightarrow> RLConfig \<Rightarrow> nat \<Rightarrow> nat
     \<Rightarrow> ('e, 'ag, 'buf, 'r) rl_state
     \<Rightarrow> 'a rl_event list \<times> ('e, 'ag, 'buf, 'r) rl_state option" where
  "episode_body R cfg fuel episode_idx st =
     (case env_reset R (env st) of
        (time_step, e) \<Rightarrow>
          (case collect R cfg episode_idx fuel time_step 0 (st\<lparr>env := e\<rparr>) of
             (evs, None) \<Rightarrow> (EnvReset episode_idx (ts_last R time_step) # evs, None)
           | (evs, Some (t, st1)) \<Rightarrow>
               (if init_random_episodes cfg \<le> int episode_idx then
                  (EnvReset episode_idx (ts_last R time_step) # evs
                     @ [Collected episode_idx t, TrainAgent episode_idx],
                   Some (st1\<lparr>agent := agent_train R (replay_buffer st1) (agent st1)\<rparr>))
                else
                  (EnvReset episode_idx (ts_last R time_step) # evs @ [Collected episode_idx t],
                   Some st1))))"

fun episodes ::
  "('e, 'ts, 'obs, 'a, 'ag, 'buf, 'r, 'arr) rl_deps \<Rightarrow> RLConfig \<Rightarrow> nat \<Rightarrow> nat list
     \<Rightarrow> ('e, 'ag, 'buf, 'r) rl_state
     \<Rightarrow> 'a rl_event list \<times> ('e, 'ag, 'buf, 'r) rl_state option" where
  "episodes R cfg fuel [] st = ([], Some st)"
| "episodes R cfg fuel (episode_idx # rest) st =
     (case episode_body R cfg fuel episode_idx st of
        (evs, None) \<Rightarrow> (evs, None)
      | (evs, Some st') \<Rightarrow>
          (evs @ fst (episodes R cfg fuel rest st'), snd (episodes R cfg fuel rest st')))"

text \<open>
  \<open>train(cfg)\<close> of the driver: the seeding, the two backend flags, the division of the
  episode length by the action repeat, and the episode loop. The environment, the replay
  buffer and the agent come from the configuration through hydra and torchrl. The result
  is the list of steps, the outcome (\<open>None\<close> for an episode that outran the fuel) and the
  process-wide state at the end.
\<close>

definition rl_train ::
  "('r, 'g) seeding \<Rightarrow> ('e, 'ts, 'obs, 'a, 'ag, 'buf, 'r, 'arr) rl_deps \<Rightarrow> RLConfig \<Rightarrow> nat
     \<Rightarrow> 'e \<Rightarrow> 'ag \<Rightarrow> 'buf \<Rightarrow> ('r, 'g) globals
     \<Rightarrow> 'a rl_event list \<times> (error + ('e, 'ag, 'buf, 'r) rl_state) option \<times> ('r, 'g) globals" where
  "rl_train S R cfg fuel env0 agent0 buffer0 g =
     (case make_reproducible S (rl_random_seed cfg) g of
        Inl e \<Rightarrow> ([], Some (Inl e), g)
      | Inr g1 \<Rightarrow>
          (let g2 = set_cudnn_flags g1 in
           if action_repeat cfg = 0 then ([], Some (Inl ZeroDivisionError), g2)
           else
             (case episodes R cfg fuel [0..<nat (num_train_episodes cfg)]
                     \<lparr>env = env0, agent = agent0, replay_buffer = buffer0, rng = np_rng g2,
                      global_step = 0\<rparr> of
                (evs, None) \<Rightarrow> (evs, None, g2)
              | (evs, Some st) \<Rightarrow> (evs, Some (Inr st), g2\<lparr>np_rng := rng st\<rparr>))))"

text \<open>
  The order of the driver's steps. A step of the environment, the end of a collection
  loop and a training of the agent each have a step that must come directly before them:
  the choice of the action that the environment is stepped with (a random draw for an
  episode below \<open>cfg.init_random_episodes\<close>, the policy otherwise), a time step that was
  the last one of the same episode, and the end of the same episode's collection loop.
\<close>

fun needs_predecessor :: "'a rl_event \<Rightarrow> bool" where
  "needs_predecessor (EnvStep ep a b) = True"
| "needs_predecessor (Collected ep t) = True"
| "needs_predecessor (TrainAgent ep) = True"
| "needs_predecessor ev = False"

fun directly_after ::
  "('e, 'ts, 'obs, 'a, 'ag, 'buf, 'r, 'arr) rl_deps \<Rightarrow> RLConfig \<Rightarrow> 'a rl_event \<Rightarrow> 'a rl_event
     \<Rightarrow> bool" where
  "directly_after R cfg prev (EnvStep ep a b) =
     (prev = (if int ep < init_random_episodes cfg
              then RandomAction ep (- 1) 1 (action_spec_shape R) (action_spec_dtype R) a
              else PolicyAction ep a))"
| "directly_after R cfg prev (Collected ep t) =
     (case prev of EnvReset ep' is_last \<Rightarrow> ep' = ep \<and> is_last
      | EnvStep ep' a is_last \<Rightarrow> ep' = ep \<and> is_last
      | _ \<Rightarrow> False)"
| "directly_after R cfg prev (TrainAgent ep) =
     (case prev of Collected ep' t \<Rightarrow> ep' = ep | _ \<Rightarrow> False)"
| "directly_after R cfg prev ev = True"

section \<open>Small concrete runs\<close>

text \<open>
  Concrete collaborators on which the theorems below are exercised. The model of the
  supervised run counts its optimisation steps, two per epoch; its validation nll is
  1 after the first epoch, 1/2 after the second and 3/4 from then on. Its stopper counts
  its calls and signals at the fourth.
\<close>

definition demo_sl_deps :: "(nat, unit, nat, nat) sl_deps" where
  "demo_sl_deps =
     \<lparr>train_loader = (\<lambda>epoch. [(), ()]),
      sgd_step = (\<lambda>batch m. Suc m),
      val_nll = (\<lambda>m. if m = 2 then Finite 1 else if m = 4 then Finite (1 / 2) else Finite (3 / 4)),
      sfr_state_dict = (\<lambda>m. m),
      optimizer_state_dict = (\<lambda>m. m + 100),
      new_early_stopper = (\<lambda>patience. 0),
      early_stopper_call = (\<lambda>nll calls. (3 \<le> calls, Suc calls)),
      int_of_quotient = (\<lambda>a b. if b = 0 then Inl ZeroDivisionError else Inr (a div b)),
      wandb_log_without_run = None\<rparr>"

definition demo_sl_cfg :: TrainConfig where
  "demo_sl_cfg =
     \<lparr>random_seed = 42, n_epochs = 6, logging_epoch_freq = 1, early_stop_patience = 2,
      use_wandb = True, wandb_run_dir = ''wandb/run-1/files''\<rparr>"

text \<open>
  The same collaborators with a \<open>wandb.log\<close> that refuses to log without a run, as the
  wandb library does.
\<close>

definition no_run_error :: error where
  "no_run_error = WandbError ''You must call wandb.init() before wandb.log()''"


text \<open>An empty file system in which every path can be written, and one in which none can.\<close>

definition demo_world :: "nat world" where
  "demo_world = \<lparr>files = Map.empty, writable = (\<lambda>path. True), logs = []\<rparr>"

definition readonly_world :: "nat world" where
  "readonly_world = \<lparr>files = Map.empty, writable = (\<lambda>path. False), logs = []\<rparr>"

definition demo_sl_state :: "(nat, nat, nat) sl_state" where
  "demo_sl_state = \<lparr>sfr = 0, early_stopper = 0, best_nll = PosInf, disk = demo_world\<rparr>"

text \<open>
  A seeding that accepts the seeds numpy accepts, on generators that are counters, and
  one that raises on every seed.
\<close>

definition demo_seeding :: "(int, nat) seeding" where
  "demo_seeding =
     \<lparr>accepts = (\<lambda>s. 0 \<le> s \<and> s < 2 ^ 32), np_seed = (\<lambda>s. s), py_seed = (\<lambda>s. nat s),
      py_next = (\<lambda>gen. (gen, Suc gen))\<rparr>"


definition demo_globals :: "nat \<Rightarrow> (int, nat) globals" where
  "demo_globals entropy = \<lparr>np_rng = int entropy, py_random = entropy, cudnn = Map.empty\<rparr>"

text \<open>A run whose stopper never signals, with no training batches, evaluated every 5 epochs.\<close>

definition quiet_sl_deps :: "(nat, unit, unit, nat) sl_deps" where
  "quiet_sl_deps =
     \<lparr>train_loader = (\<lambda>epoch. []),
      sgd_step = (\<lambda>batch m. Suc m),
      val_nll = (\<lambda>m. Finite 1),
      sfr_state_dict = (\<lambda>m. m),
      optimizer_state_dict = (\<lambda>m. m),
      new_early_stopper = (\<lambda>patience. ()),
      early_stopper_call = (\<lambda>nll s. (False, ())),
      int_of_quotient = (\<lambda>a b. if b = 0 then Inl ZeroDivisionError else Inr (a div b)),
      wandb_log_without_run = None\<rparr>"

definition strict_quiet_sl_deps :: "(nat, unit, unit, nat) sl_deps" where
  "strict_quiet_sl_deps = quiet_sl_deps\<lparr>wandb_log_without_run := Some no_run_error\<rparr>"

definition quiet_sl_cfg :: TrainConfig where
  "quiet_sl_cfg =
     \<lparr>random_seed = 42, n_epochs = 12, logging_epoch_freq = 5, early_stop_patience = 10,
      use_wandb = True, wandb_run_dir = ''wandb/run-2/files''\<rparr>"

text \<open>
  A transition-model training whose loss is 1, then 3, 3, ...; its stopper counts its
  calls since the last reset and signals at the third. Tensors and networks are numbers.
\<close>

definition demo_mlp_deps :: "(nat, int, unit, unit, nat) mlp_deps" where
  "demo_mlp_deps =
     \<lparr>torch_concat = (\<lambda>ts dim. Inr (sum_list ts)),
      forward = (\<lambda>net x. Inr (2 * x)),
      tensor_add = (\<lambda>a b. Inr (a + b)),
      cuda = (\<lambda>net. net),
      start_training = (\<lambda>net. net),
      buffer_sample = (\<lambda>batch_size buf. ((), buf)),
      fit_batch = (\<lambda>batch net. (if net = 0 then Finite 1 else Finite 3, Suc net)),
      stopper_reset = (\<lambda>calls. 0),
      stopper_call = (\<lambda>loss calls. (2 \<le> calls, Suc calls))\<rparr>"

text \<open>
  A driver run of three episodes, the first two of them random. An episode of the
  environment has two steps; time steps, observations and the buffer are counters; a
  random action is drawn from the counter that stands for numpy's generator.
\<close>

definition demo_rl_deps :: "(nat, nat, nat, int, nat, nat, int, int) rl_deps" where
  "demo_rl_deps =
     \<lparr>env_reset = (\<lambda>e. (0, 0)),
      env_step = (\<lambda>action e. (Suc e, Suc e)),
      action_spec_shape = [1],
      action_spec_dtype = ''float32'',
      ts_last = (\<lambda>ts. 2 \<le> ts),
      ts_first = (\<lambda>ts. ts = 0),
      ts_observation = (\<lambda>ts. ts),
      np_random_uniform = (\<lambda>low high shape r. (low + r mod (high - low + 1), r + 1)),
      astype = (\<lambda>arr dtype. arr),
      select_action = (\<lambda>obs eval_mode t0 ag. (int obs + 10, ag)),
      agent_train = (\<lambda>buf ag. Suc ag),
      buffer_add = (\<lambda>obs ts buf. Suc buf)\<rparr>"

definition demo_rl_cfg :: RLConfig where
  "demo_rl_cfg =
     \<lparr>rl_random_seed = 5, num_train_episodes = 3, init_random_episodes = 2,
      episode_length = 2, action_repeat = 1\<rparr>"

section \<open>Verified properties\<close>

subsection \<open>The checkpoint writer\<close>

lemma checkpoint_eq:
  "checkpoint m opt d v w =
     (if writable w (os_path_join d ''best_ckpt_dict.pt'') then
        (Inr (os_path_join d ''best_ckpt_dict.pt''),
         w\<lparr>files := (files w)(os_path_join d ''best_ckpt_dict.pt''
                    \<mapsto> [''model'' \<mapsto> m, ''optimizer'' \<mapsto> opt]),
           logs := logs w @ (if v then [''Saving SFR and optimiser...'',
                                       ''Finished saving model and optimiser etc''] else [])\<rparr>)
      else
        (Inl (IOError (os_path_join d ''best_ckpt_dict.pt'')),
         w\<lparr>logs := logs w @ (if v then [''Saving SFR and optimiser...''] else [])\<rparr>))"
  by (simp add: checkpoint_def Let_def torch_save_def logger_info_def)

lemma writable_checkpoint: "writable (snd (checkpoint m opt d v w)) = writable w"
  by (simp add: checkpoint_eq)

lemma dom_files_checkpoint:
  "dom (files (snd (checkpoint m opt d v w)))
     = (if writable w (os_path_join d ''best_ckpt_dict.pt'')
        then insert (os_path_join d ''best_ckpt_dict.pt'') (dom (files w)) else dom (files w))"
  by (simp add: checkpoint_eq)

lemma checkpoints_Cons:
  "checkpoints ((m, opt, v) # calls) d w = checkpoints calls d (snd (checkpoint m opt d v w))"
  by (simp add: checkpoints_def)

lemma dom_files_checkpoints:
  "dom (files (checkpoints calls d w))
     = (if writable w (os_path_join d ''best_ckpt_dict.pt'') \<and> calls \<noteq> []
        then insert (os_path_join d ''best_ckpt_dict.pt'') (dom (files w)) else dom (files w))"
proof (induction calls arbitrary: w)
  case Nil
  then show ?case by (simp add: checkpoints_def)
next
  case (Cons c calls)
  obtain m opt v where c: "c = (m, opt, v)" by (cases c)
  show ?case
    unfolding c checkpoints_Cons Cons.IH writable_checkpoint dom_files_checkpoint
    by auto
qed

text \<open>
  Claim C3, as amended. A call of \<open>checkpoint\<close> whose \<open>torch.save\<close> succeeds returns the
  path \<open>save_dir\<close> joined with \<open>best_ckpt_dict.pt\<close> and changes the file system at that
  path alone, where it stores a dict with exactly the keys \<open>model\<close> and \<open>optimizer\<close>,
  holding the two state dicts. A call whose \<open>torch.save\<close> raises (the file cannot be
  written) passes the exception on, returns no path and leaves the files as they were.
  The path depends on the directory alone, so after any number of calls for one run
  directory the files are the earlier ones and at most that one path.
\<close>

theorem checkpoint_single_fixed_file:
  "checkpoint m opt d v w =
     (if writable w (os_path_join d ''best_ckpt_dict.pt'') then
        (Inr (os_path_join d ''best_ckpt_dict.pt''),
         w\<lparr>files := (files w)(os_path_join d ''best_ckpt_dict.pt''
                    \<mapsto> [''model'' \<mapsto> m, ''optimizer'' \<mapsto> opt]),
           logs := logs w @ (if v then [''Saving SFR and optimiser...'',
                                       ''Finished saving model and optimiser etc''] else [])\<rparr>)
      else
        (Inl (IOError (os_path_join d ''best_ckpt_dict.pt'')),
         w\<lparr>logs := logs w @ (if v then [''Saving SFR and optimiser...''] else [])\<rparr>))
   \<and> map_option dom (files (snd (checkpoint m opt d v w)) (os_path_join d ''best_ckpt_dict.pt''))
       = (if writable w (os_path_join d ''best_ckpt_dict.pt'') then Some {''model'', ''optimizer''}
          else map_option dom (files w (os_path_join d ''best_ckpt_dict.pt'')))
   \<and> dom (files (checkpoints calls d w))
       = (if writable w (os_path_join d ''best_ckpt_dict.pt'') \<and> calls \<noteq> []
          then insert (os_path_join d ''best_ckpt_dict.pt'') (dom (files w)) else dom (files w))"
proof (intro conjI)
  show "checkpoint m opt d v w =
     (if writable w (os_path_join d ''best_ckpt_dict.pt'') then
        (Inr (os_path_join d ''best_ckpt_dict.pt''),
         w\<lparr>files := (files w)(os_path_join d ''best_ckpt_dict.pt''
                    \<mapsto> [''model'' \<mapsto> m, ''optimizer'' \<mapsto> opt]),
           logs := logs w @ (if v then [''Saving SFR and optimiser...'',
                                       ''Finished saving model and optimiser etc''] else [])\<rparr>)
      else
        (Inl (IOError (os_path_join d ''best_ckpt_dict.pt'')),
         w\<lparr>logs := logs w @ (if v then [''Saving SFR and optimiser...''] else [])\<rparr>))"
    by (rule checkpoint_eq)
  show "map_option dom (files (snd (checkpoint m opt d v w)) (os_path_join d ''best_ckpt_dict.pt''))
       = (if writable w (os_path_join d ''best_ckpt_dict.pt'') then Some {''model'', ''optimizer''}
          else map_option dom (files w (os_path_join d ''best_ckpt_dict.pt'')))"
    by (simp add: checkpoint_eq insert_commute)
  show "dom (files (checkpoints calls d w))
       = (if writable w (os_path_join d ''best_ckpt_dict.pt'') \<and> calls \<noteq> []
          then insert (os_path_join d ''best_ckpt_dict.pt'') (dom (files w)) else dom (files w))"
    by (rule dom_files_checkpoints)
qed

text \<open>
  The claim as written holds of every call. In a file system where the run directory
  cannot be written, the call raises and writes no file.
\<close>

theorem checkpoint_unwritable_counterexample:
  "fst (checkpoint 1 2 ''wandb/run-1/files'' False readonly_world)
     = Inl (IOError ''wandb/run-1/files/best_ckpt_dict.pt'')
   \<and> files (snd (checkpoint 1 2 ''wandb/run-1/files'' False readonly_world)) = Map.empty"
  by (simp add: checkpoint_def Let_def torch_save_def readonly_world_def os_path_join_def)

subsection \<open>The supervised training loop\<close>

lemma evals_append: "evals (xs @ ys) = evals xs @ evals ys"
  by (induction xs rule: evals.induct) simp_all

lemma saves_append: "saves (xs @ ys) = saves xs @ saves ys"
  by (induction xs rule: saves.induct) simp_all

lemma evals_steps: "evals (map (Step e) ks) = []"
  by (induction ks) simp_all

lemma saves_steps: "saves (map (Step e) ks) = []"
  by (induction ks) simp_all

lemma new_bests_append:
  "new_bests b (xs @ ys) = new_bests b xs @ new_bests (best_of b (map snd xs)) ys"
  by (induction b xs rule: new_bests.induct) simp_all

lemma best_of_append: "best_of b (xs @ ys) = best_of (best_of b xs) ys"
  by (induction xs arbitrary: b) simp_all

text \<open>One epoch of the loop.\<close>

lemma save_if_best_cases:
  assumes "use_wandb cfg"
  shows "save_if_best D cfg epoch nll st =
     (if float_lt nll (best_nll st) then
        ([Checkpoint epoch (os_path_join (wandb_run_dir cfg) ''best_ckpt_dict.pt'')],
         if writable (disk st) (os_path_join (wandb_run_dir cfg) ''best_ckpt_dict.pt'')
         then Inr (st\<lparr>best_nll := nll,
                 disk := snd (checkpoint (sfr_state_dict D (sfr st)) (optimizer_state_dict D (sfr st))
                                (wandb_run_dir cfg) False (disk st))\<rparr>)
         else Inl (IOError (os_path_join (wandb_run_dir cfg) ''best_ckpt_dict.pt'')))
      else ([], Inr st))"
  using assms
  by (simp add: save_if_best_def run_dir_def checkpoint_eq)

lemma wandb_log_run: "use_wandb cfg \<Longrightarrow> wandb_log D cfg = None"
  by (simp add: wandb_log_def)

lemma evals_epoch_body:
  "wandb_log D cfg = None \<Longrightarrow> logging_epoch_freq cfg \<noteq> 0 \<Longrightarrow>
   evals (fst (epoch_body D cfg epoch st)) =
     (if int epoch mod logging_epoch_freq cfg = 0
      then [(epoch, val_nll D (fold (sgd_step D) (train_loader D epoch) (sfr st)))] else [])"
  by (auto simp add: epoch_body_def Let_def evals_append evals_steps save_if_best_def
      split: prod.splits sum.splits if_splits)


lemma saves_epoch_body:
  assumes "use_wandb cfg"
  shows "saves (fst (epoch_body D cfg epoch st)) =
           map (\<lambda>(e, m). (e, os_path_join (wandb_run_dir cfg) ''best_ckpt_dict.pt''))
             (new_bests (best_nll st) (evals (fst (epoch_body D cfg epoch st))))"
  by (auto simp add: epoch_body_def wandb_log_run [OF assms] Let_def evals_append evals_steps
      saves_append saves_steps save_if_best_cases [OF assms]
      split: prod.splits sum.splits if_splits)

lemma best_epoch_body:
  assumes "use_wandb cfg"
    and "snd (epoch_body D cfg epoch st) = Continue st' \<or> snd (epoch_body D cfg epoch st) = Break st'"
  shows "best_nll st' = best_of (best_nll st) (map snd (evals (fst (epoch_body D cfg epoch st))))"
  using assms(2)
  by (auto simp add: epoch_body_def wandb_log_run [OF assms(1)] Let_def evals_append evals_steps
      save_if_best_cases [OF assms(1)] split: prod.splits sum.splits if_splits)

lemma saves_train_epochs:
  assumes "use_wandb cfg"
  shows "saves (fst (train_epochs D cfg es st)) =
           map (\<lambda>(e, m). (e, os_path_join (wandb_run_dir cfg) ''best_ckpt_dict.pt''))
             (new_bests (best_nll st) (evals (fst (train_epochs D cfg es st))))
       \<and> (\<forall>st'. snd (train_epochs D cfg es st) = Inr st' \<longrightarrow>
             best_nll st' = best_of (best_nll st) (map snd (evals (fst (train_epochs D cfg es st)))))"
proof (induction es arbitrary: st)
  case Nil
  show ?case by simp
next
  case (Cons epoch rest)
  obtain evs fl where b: "epoch_body D cfg epoch st = (evs, fl)"
    by (cases "epoch_body D cfg epoch st")
  have s: "saves evs = map (\<lambda>(e, m). (e, os_path_join (wandb_run_dir cfg) ''best_ckpt_dict.pt''))
             (new_bests (best_nll st) (evals evs))"
    using saves_epoch_body [OF assms, of D epoch st] b by simp
  show ?case
  proof (cases fl)
    case (Continue st1)
    have bst: "best_nll st1 = best_of (best_nll st) (map snd (evals evs))"
      using best_epoch_body [OF assms, of D epoch st st1] b Continue by simp
    show ?thesis
      using Cons.IH [of st1] s bst b Continue
      by (simp add: saves_append evals_append new_bests_append best_of_append)
  next
    case (Break st1)
    have bst: "best_nll st1 = best_of (best_nll st) (map snd (evals evs))"
      using best_epoch_body [OF assms, of D epoch st st1] b Break by simp
    show ?thesis using s bst b Break by simp
  next
    case (Raise e)
    show ?thesis using s b Raise by simp
  qed
qed

lemma append_split_at:
  assumes "xs @ ys = pre @ x # post"
  shows "(\<exists>us. xs = pre @ x # us \<and> post = us @ ys) \<or> (\<exists>us. pre = xs @ us \<and> ys = us @ x # post)"
  using assms by (auto simp add: append_eq_append_conv2 append_eq_Cons_conv)


lemma Consult_notin_steps: "Consult e m r \<notin> set (map (Step epoch) ks)"
  by auto






lemmas demo_defs = demo_sl_deps_def demo_sl_cfg_def demo_sl_state_def demo_world_def
  epoch_body_def wandb_log_def save_if_best_def run_dir_def checkpoint_def os_path_join_def
  torch_save_def
  logger_info_def Let_def



lemma grad_steps_append: "grad_steps (xs @ ys) = grad_steps xs @ grad_steps ys"
  by (induction xs rule: grad_steps.induct) simp_all


text \<open>
  A run of the supervised script whose wandb run exists: the calls of \<open>checkpoint\<close> are,
  in order and epoch by epoch, exactly the evaluations whose validation nll is strictly
  below the best nll seen so far, where the best starts at \<open>+inf\<close> and becomes the new nll
  at each save; every call is for the path of the run directory joined with
  \<open>best_ckpt_dict.pt\<close>; a run that ends normally or by the stop signal holds the best
  evaluated nll.
\<close>

lemma checkpoint_calls_are_new_bests:
  assumes "use_wandb cfg"
  shows "saves (fst (sl_train S D cfg sfr0 w g))
           = map (\<lambda>(e, m). (e, os_path_join (wandb_run_dir cfg) ''best_ckpt_dict.pt''))
               (new_bests PosInf (evals (fst (sl_train S D cfg sfr0 w g))))
       \<and> (\<forall>st. fst (snd (sl_train S D cfg sfr0 w g)) = Inr st \<longrightarrow>
             best_nll st = best_of PosInf (map snd (evals (fst (sl_train S D cfg sfr0 w g)))))"
proof -
  let ?evs = "fst (sl_train S D cfg sfr0 w g)"
  let ?f = "\<lambda>(e :: nat, m :: pyfloat). (e, os_path_join (wandb_run_dir cfg) ''best_ckpt_dict.pt'')"
  have main: "saves ?evs = map ?f (new_bests PosInf (evals ?evs))
       \<and> (\<forall>st. fst (snd (sl_train S D cfg sfr0 w g)) = Inr st \<longrightarrow>
             best_nll st = best_of PosInf (map snd (evals ?evs)))"
  proof (cases "make_reproducible S (random_seed cfg) g")
    case (Inl e)
    then show ?thesis by (simp add: sl_train_def)
  next
    case (Inr g1)
    show ?thesis
    proof (cases "int_of_quotient D (early_stop_patience cfg) (logging_epoch_freq cfg)")
      case (Inl e)
      then show ?thesis using Inr by (simp add: sl_train_def Let_def)
    next
      case (Inr p)
      let ?st0 = "\<lparr>sfr = sfr0, early_stopper = new_early_stopper D p, best_nll = PosInf, disk = w\<rparr>"
      let ?r = "train_epochs D cfg [0..<nat (n_epochs cfg)] ?st0"
      have e: "?evs = fst ?r"
        using \<open>make_reproducible S (random_seed cfg) g = Inr g1\<close> Inr
        by (simp add: sl_train_def Let_def split: prod.splits)
      have o: "fst (snd (sl_train S D cfg sfr0 w g)) =
                 (case snd ?r of Inl e \<Rightarrow> Inl e
                  | Inr st \<Rightarrow> Inr (st\<lparr>disk := logger_info ''Finished training'' (disk st)\<rparr>))"
        using \<open>make_reproducible S (random_seed cfg) g = Inr g1\<close> Inr
        by (simp add: sl_train_def Let_def split: prod.splits)
      from saves_train_epochs [OF assms, of D "[0..<nat (n_epochs cfg)]" ?st0]
      show ?thesis unfolding e o by (auto split: sum.splits)
    qed
  qed
  show ?thesis using main by blast
qed

lemmas demo_seed_defs = sl_train_def make_reproducible_def set_seed_everywhere_def
  demo_seeding_def demo_globals_def set_cudnn_flags_def


text \<open>The same run with the wandb run in place: two new bests, two calls, one path.\<close>

lemma demo_sl_train_trace:
  "fst (sl_train demo_seeding demo_sl_deps demo_sl_cfg 0 demo_world (demo_globals 7))
   = [Step 0 0, Step 0 1, Evaluate 0 (Finite 1), Checkpoint 0 ''wandb/run-1/files/best_ckpt_dict.pt'',
      Consult 0 (Finite 1) False,
      Step 1 0, Step 1 1, Evaluate 1 (Finite (1/2)), Checkpoint 1 ''wandb/run-1/files/best_ckpt_dict.pt'',
      Consult 1 (Finite (1/2)) False,
      Step 2 0, Step 2 1, Evaluate 2 (Finite (3/4)), Consult 2 (Finite (3/4)) False,
      Step 3 0, Step 3 1, Evaluate 3 (Finite (3/4)), Consult 3 (Finite (3/4)) True]"
  by (simp add: demo_seed_defs demo_defs upt_rec [of _ "numeral _"] upt_rec [of 0 "Suc _"]
      eval_nat_numeral)

lemma train_epochs_step:
  "train_epochs D cfg (epoch # rest) st =
     (case epoch_body D cfg epoch st of
        (evs, Continue st') \<Rightarrow>
          (case train_epochs D cfg rest st' of (evs', r) \<Rightarrow> (evs @ evs', r))
      | (evs, Break st') \<Rightarrow> (evs, Inr st')
      | (evs, Raise e) \<Rightarrow> (evs, Inl e))"
  by (simp add: case_prod_unfold split: prod.splits flow.splits)

lemmas quiet_defs = quiet_sl_deps_def quiet_sl_cfg_def demo_world_def
  epoch_body_def wandb_log_def save_if_best_def run_dir_def checkpoint_def os_path_join_def
  torch_save_def
  logger_info_def Let_def

text \<open>
  Claim C7, at the run that breaks it. The evaluation frequency is 5, there are 12 epochs
  and the stopper never signals, but \<open>wandb.use_wandb\<close> is false. With a \<open>wandb.log\<close> that
  returns, the evaluation of epoch 0 finds a new best and reading \<open>run.dir\<close> raises
  \<open>NameError\<close>, so there is one evaluation, not three. With a \<open>wandb.log\<close> that refuses
  to log without a run there is none. With the wandb run in place the same run evaluates
  at the epochs 0, 5 and 10.
\<close>

theorem no_wandb_run_evaluates_once:
  "map fst (evals (fst (sl_train demo_seeding quiet_sl_deps (quiet_sl_cfg\<lparr>use_wandb := False\<rparr>) 0
        demo_world (demo_globals 7)))) = [0]
   \<and> fst (snd (sl_train demo_seeding quiet_sl_deps (quiet_sl_cfg\<lparr>use_wandb := False\<rparr>) 0
        demo_world (demo_globals 7))) = Inl (NameError ''run'')
   \<and> map fst (evals (fst (sl_train demo_seeding strict_quiet_sl_deps
        (quiet_sl_cfg\<lparr>use_wandb := False\<rparr>) 0 demo_world (demo_globals 7)))) = []
   \<and> fst (snd (sl_train demo_seeding strict_quiet_sl_deps (quiet_sl_cfg\<lparr>use_wandb := False\<rparr>) 0
        demo_world (demo_globals 7))) = Inl no_run_error
   \<and> map fst (evals (fst (sl_train demo_seeding quiet_sl_deps quiet_sl_cfg 0 demo_world
        (demo_globals 7)))) = [0, 5, 10]"
  by (simp add: demo_seed_defs quiet_defs strict_quiet_sl_deps_def train_epochs_step
      upt_rec [of _ "numeral _"] upt_rec [of 0 "Suc _"] eval_nat_numeral
      del: train_epochs.simps(2))





subsection \<open>The MLP transition model\<close>

text \<open>
  Claim C10. For every state and action, \<open>predict_fn\<close> returns a prediction exactly when
  the concatenation, the forward pass and the addition succeed, and the prediction is then
  the one whose \<open>state_mean\<close> is the state plus the network's output on the concatenated
  state and action, and whose \<open>state_var\<close> and \<open>noise_var\<close> are both 0.
\<close>

theorem predict_fn_mean_and_zero_variances:
  "(predict_fn T net state action = Inr p)
     = (\<exists>x delta mean.
          torch_concat T [state, action] (- 1) = Inr x \<and> forward T net x = Inr delta
          \<and> tensor_add T state delta = Inr mean
          \<and> p = \<lparr>state_mean = mean, state_var = 0, noise_var = 0\<rparr>)"
  by (auto simp add: predict_fn_def split: sum.splits)

text \<open>On numbers, with a network that doubles its input: 3 + 2 * (3 + 4) = 17.\<close>

theorem predict_fn_mean_and_zero_variances_witness:
  "predict_fn demo_mlp_deps 0 3 4 = Inr \<lparr>state_mean = 17, state_var = 0, noise_var = 0\<rparr>"
proof -
  have "\<exists>x delta mean.
          torch_concat demo_mlp_deps [3, 4] (- 1) = Inr x \<and> forward demo_mlp_deps 0 x = Inr delta
          \<and> tensor_add demo_mlp_deps 3 delta = Inr mean
          \<and> \<lparr>state_mean = 17, state_var = 0, noise_var = 0\<rparr>
              = \<lparr>state_mean = mean, state_var = 0, noise_var = 0\<rparr>"
    by (simp add: demo_mlp_deps_def)
  then show ?thesis
    using predict_fn_mean_and_zero_variances [of demo_mlp_deps 0 3 4
        "\<lparr>state_mean = 17, state_var = 0, noise_var = 0\<rparr>"]
    by blast
qed

text \<open>
  Claim C9, as amended. The record \<open>TransitionModel\<close> of src/models/transitions/base.py
  has exactly the two fields \<open>predict\<close> and \<open>train\<close>. The bundle that \<open>init\<close> of the MLP
  transition model builds is given by the three keywords \<open>predict\<close>, \<open>train\<close> and
  \<open>update\<close>: a class with exactly these three fields takes it and holds the three
  closures in this order, while the two-field record rejects the keyword \<open>update\<close>.
\<close>

theorem TransitionModel_fields_and_bundle:
  "TransitionModel_fields = [''predict'', ''train'']
   \<and> map fst (init_kwargs p t u) = [''predict'', ''train'', ''update'']
   \<and> snd (init T [''predict'', ''train'', ''update''] net num_iterations batch_size es device)
       = Inr [(''predict'', PredictFn (predict_fn T)),
              (''train'', TrainFn (train_fn T num_iterations batch_size es)),
              (''update'', UpdateFn dummy_update_fn)]
   \<and> namedtuple_new TransitionModel_fields (init_kwargs p t u)
       = Inl (TypeError ''got an unexpected keyword argument'')"
  by (simp add: TransitionModel_fields_def init_kwargs_def init_def namedtuple_new_def)

text \<open>The record of base.py, lines 13-15, has no field \<open>update\<close>.\<close>

theorem TransitionModel_three_fields_counterexample:
  "''update'' \<notin> set TransitionModel_fields"
  by (simp add: TransitionModel_fields_def)


subsection \<open>Seeding\<close>












subsection \<open>The reinforcement-learning driver\<close>

lemma adjacent_append:
  assumes xs: "\<And>pre x post. xs = pre @ x # post \<Longrightarrow> Q x \<Longrightarrow> \<exists>pre' y. pre = pre' @ [y] \<and> P y x"
    and ys: "\<And>pre x post. ys = pre @ x # post \<Longrightarrow> Q x \<Longrightarrow> \<exists>pre' y. pre = pre' @ [y] \<and> P y x"
    and e: "xs @ ys = pre @ x # post" and q: "Q x"
  shows "\<exists>pre' y. pre = pre' @ [y] \<and> P y x"
proof -
  from append_split_at [OF e] show ?thesis
  proof (elim disjE exE conjE)
    fix us assume "xs = pre @ x # us"
    then show ?thesis using xs q by blast
  next
    fix us assume 1: "pre = xs @ us" and 2: "ys = us @ x # post"
    from ys [OF 2 q] obtain pre' y where "us = pre' @ [y]" "P y x" by blast
    then have "pre = (xs @ pre') @ [y]" using 1 by simp
    then show ?thesis using \<open>P y x\<close> by blast
  qed
qed

text \<open>The collection loop.\<close>

lemma choose_action_event:
  "fst (choose_action R cfg ep ts st)
     = (if int ep < init_random_episodes cfg
        then RandomAction ep (- 1) 1 (action_spec_shape R) (action_spec_dtype R)
               (fst (snd (choose_action R cfg ep ts st)))
        else PolicyAction ep (fst (snd (choose_action R cfg ep ts st))))"
  by (simp add: choose_action_def Let_def split: prod.splits)

lemma collect_Suc:
  assumes "\<not> ts_last R ts"
  shows "\<exists>a st2 ts'.
    collect R cfg ep (Suc fuel) ts t st
       = ([if int ep < init_random_episodes cfg
           then RandomAction ep (- 1) 1 (action_spec_shape R) (action_spec_dtype R) a
           else PolicyAction ep a,
           EnvStep ep a (ts_last R ts')] @ fst (collect R cfg ep fuel ts' (t + 1) st2),
          snd (collect R cfg ep fuel ts' (t + 1) st2))"
proof -
  obtain chosen a st1 where c: "choose_action R cfg ep ts st = (chosen, a, st1)"
    by (cases "choose_action R cfg ep ts st")
  obtain ts' e where s: "env_step R a (env st1) = (ts', e)"
    by (cases "env_step R a (env st1)")
  have 1: "fst (choose_action R cfg ep ts st) = chosen" using c by simp
  have 2: "fst (snd (choose_action R cfg ep ts st)) = a" using c by simp
  have ch: "chosen = (if int ep < init_random_episodes cfg
               then RandomAction ep (- 1) 1 (action_spec_shape R) (action_spec_dtype R) a
               else PolicyAction ep a)"
    using choose_action_event [of R cfg ep ts st] unfolding 1 2 .
  let ?st2 = "st1\<lparr>env := e,
                  replay_buffer := buffer_add R (ts_observation R ts) ts' (replay_buffer st1),
                  global_step := global_step st1 + 1\<rparr>"
  have "collect R cfg ep (Suc fuel) ts t st
       = ([chosen, EnvStep ep a (ts_last R ts')] @ fst (collect R cfg ep fuel ts' (t + 1) ?st2),
          snd (collect R cfg ep fuel ts' (t + 1) ?st2))"
    using assms c s by (simp add: Let_def)
  then show ?thesis unfolding ch by blast
qed



lemma collect_last:
  "ts_last R ts \<Longrightarrow> collect R cfg ep fuel ts t st = ([], Some (t, st))"
  by (cases fuel) simp_all

lemma collect_no_fuel:
  "\<not> ts_last R ts \<Longrightarrow> collect R cfg ep 0 ts t st = ([], None)"
  by simp

lemma collect_ordered:
  assumes "fst (collect R cfg ep fuel ts t st) = pre @ x # post" and "needs_predecessor x"
  shows "\<exists>pre' y. pre = pre' @ [y] \<and> directly_after R cfg y x"
  using assms
proof (induction fuel arbitrary: ts t st pre x post)
  case 0
  then show ?case
    by (cases "ts_last R ts") (simp_all add: collect_last collect_no_fuel del: collect.simps)
next
  case (Suc fuel)
  show ?case
  proof (cases "ts_last R ts")
    case True
    then show ?thesis using Suc.prems by (simp add: collect_last del: collect.simps)
  next
    case False
    from collect_Suc [OF False, of cfg ep fuel t st] obtain a st2 ts' where
      c: "collect R cfg ep (Suc fuel) ts t st
       = ([if int ep < init_random_episodes cfg
           then RandomAction ep (- 1) 1 (action_spec_shape R) (action_spec_dtype R) a
           else PolicyAction ep a,
           EnvStep ep a (ts_last R ts')] @ fst (collect R cfg ep fuel ts' (t + 1) st2),
          snd (collect R cfg ep fuel ts' (t + 1) st2))"
      by (elim exE)
    let ?chosen = "if int ep < init_random_episodes cfg
           then RandomAction ep (- 1) 1 (action_spec_shape R) (action_spec_dtype R) a
           else PolicyAction ep a"
    have e: "[?chosen, EnvStep ep a (ts_last R ts')] @ fst (collect R cfg ep fuel ts' (t + 1) st2)
              = pre @ x # post"
      using Suc.prems(1) unfolding c by simp
    have h: "\<And>pre x post. [?chosen, EnvStep ep a (ts_last R ts')] = pre @ x # post \<Longrightarrow>
              needs_predecessor x \<Longrightarrow> \<exists>pre' y. pre = pre' @ [y] \<and> directly_after R cfg y x"
    proof -
      fix pre x post
      assume 1: "[?chosen, EnvStep ep a (ts_last R ts')] = pre @ x # post"
        and 2: "needs_predecessor x"
      from 1 consider "pre = []" "x = ?chosen" | "pre = [?chosen]" "x = EnvStep ep a (ts_last R ts')"
        by (cases pre; cases "tl pre") auto
      then show "\<exists>pre' y. pre = pre' @ [y] \<and> directly_after R cfg y x"
      proof cases
        case 1
        then show ?thesis using 2 by (cases "int ep < init_random_episodes cfg") simp_all
      next
        case 2
        then have "pre = [] @ [?chosen]" "directly_after R cfg ?chosen x" by simp_all
        then show ?thesis by blast
      qed
    qed
    show ?thesis
    proof (rule adjacent_append [where Q = needs_predecessor and P = "directly_after R cfg",
          OF _ _ e Suc.prems(2)])
      fix pre x post
      assume "[?chosen, EnvStep ep a (ts_last R ts')] = pre @ x # post" "needs_predecessor x"
      then show "\<exists>pre' y. pre = pre' @ [y] \<and> directly_after R cfg y x" by (rule h)
    next
      fix pre x post
      assume "fst (collect R cfg ep fuel ts' (t + 1) st2) = pre @ x # post" "needs_predecessor x"
      then show "\<exists>pre' y. pre = pre' @ [y] \<and> directly_after R cfg y x" by (rule Suc.IH)
    qed
  qed
qed


lemma collect_end:
  assumes "collect R cfg ep fuel ts t st = (evs, Some x)"
  shows "(evs = [] \<and> ts_last R ts) \<or> (\<exists>pre a. evs = pre @ [EnvStep ep a True])"
  using assms
proof (induction fuel arbitrary: ts t st evs)
  case 0
  then show ?case
    by (cases "ts_last R ts") (simp_all add: collect_last collect_no_fuel del: collect.simps)
next
  case (Suc fuel)
  show ?case
  proof (cases "ts_last R ts")
    case True
    then show ?thesis using Suc.prems by (simp add: collect_last del: collect.simps)
  next
    case False
    from collect_Suc [OF False, of cfg ep fuel t st] obtain a st2 ts' where
      c: "collect R cfg ep (Suc fuel) ts t st
       = ([if int ep < init_random_episodes cfg
           then RandomAction ep (- 1) 1 (action_spec_shape R) (action_spec_dtype R) a
           else PolicyAction ep a,
           EnvStep ep a (ts_last R ts')] @ fst (collect R cfg ep fuel ts' (t + 1) st2),
          snd (collect R cfg ep fuel ts' (t + 1) st2))"
      by (elim exE)
    let ?chosen = "if int ep < init_random_episodes cfg
           then RandomAction ep (- 1) 1 (action_spec_shape R) (action_spec_dtype R) a
           else PolicyAction ep a"
    let ?r = "collect R cfg ep fuel ts' (t + 1) st2"
    have s: "snd ?r = Some x" and e: "evs = [?chosen, EnvStep ep a (ts_last R ts')] @ fst ?r"
      using Suc.prems unfolding c by simp_all
    have r: "?r = (fst ?r, Some x)" using s by (simp add: prod_eq_iff)
    from Suc.IH [OF r] show ?thesis
    proof (elim disjE conjE exE)
      assume "fst ?r = []" "ts_last R ts'"
      then have "evs = [?chosen] @ [EnvStep ep a True]" using e by simp
      then show ?thesis by blast
    next
      fix pre b assume "fst ?r = pre @ [EnvStep ep b True]"
      then have "evs = ([?chosen, EnvStep ep a (ts_last R ts')] @ pre) @ [EnvStep ep b True]"
        using e by simp
      then show ?thesis by blast
    qed
  qed
qed

text \<open>What kinds of steps a collection loop has.\<close>

lemma collect_events:
  assumes "ev \<in> set (fst (collect R cfg ep fuel ts t st))"
  shows "(\<exists>a. ev = RandomAction ep (- 1) 1 (action_spec_shape R) (action_spec_dtype R) a
               \<and> int ep < init_random_episodes cfg)
       \<or> (\<exists>a. ev = PolicyAction ep a \<and> init_random_episodes cfg \<le> int ep)
       \<or> (\<exists>a b. ev = EnvStep ep a b)"
  using assms
proof (induction fuel arbitrary: ts t st)
  case 0
  then show ?case
    by (cases "ts_last R ts") (simp_all add: collect_last collect_no_fuel del: collect.simps)
next
  case (Suc fuel)
  show ?case
  proof (cases "ts_last R ts")
    case True
    then show ?thesis using Suc.prems by (simp add: collect_last del: collect.simps)
  next
    case False
    from collect_Suc [OF False, of cfg ep fuel t st] obtain a st2 ts' where
      c: "collect R cfg ep (Suc fuel) ts t st
       = ([if int ep < init_random_episodes cfg
           then RandomAction ep (- 1) 1 (action_spec_shape R) (action_spec_dtype R) a
           else PolicyAction ep a,
           EnvStep ep a (ts_last R ts')] @ fst (collect R cfg ep fuel ts' (t + 1) st2),
          snd (collect R cfg ep fuel ts' (t + 1) st2))"
      by (elim exE)
    let ?chosen = "if int ep < init_random_episodes cfg
           then RandomAction ep (- 1) 1 (action_spec_shape R) (action_spec_dtype R) a
           else PolicyAction ep a"
    from Suc.prems consider "ev = ?chosen" | "ev = EnvStep ep a (ts_last R ts')"
      | "ev \<in> set (fst (collect R cfg ep fuel ts' (t + 1) st2))"
      unfolding c by auto
    then show ?thesis
    proof cases
      case 1
      then show ?thesis by (cases "int ep < init_random_episodes cfg") simp_all
    next
      case 2
      then show ?thesis by blast
    next
      case 3
      then show ?thesis by (rule Suc.IH)
    qed
  qed
qed


lemma adjacent_snoc:
  assumes xs: "\<And>pre x post. xs = pre @ x # post \<Longrightarrow> Q x \<Longrightarrow> \<exists>pre' y. pre = pre' @ [y] \<and> P y x"
    and c: "Q c \<Longrightarrow> \<exists>pre' y. xs = pre' @ [y] \<and> P y c"
    and e: "xs @ [c] = pre @ x # post" and q: "Q x"
  shows "\<exists>pre' y. pre = pre' @ [y] \<and> P y x"
proof -
  from append_split_at [OF e] show ?thesis
  proof (elim disjE exE conjE)
    fix us assume "xs = pre @ x # us"
    then show ?thesis using xs q by blast
  next
    fix us assume 1: "pre = xs @ us" and 2: "[c] = us @ x # post"
    from 2 have "us = []" "x = c" by (simp_all add: Cons_eq_append_conv)
    then show ?thesis using 1 c q by simp
  qed
qed

text \<open>One episode.\<close>

lemma episode_body_trace:
  "\<exists>ts0 st0 cevs r.
     collect R cfg ep fuel ts0 0 st0 = (cevs, r)
     \<and> fst (episode_body R cfg fuel ep st)
         = (EnvReset ep (ts_last R ts0) # cevs)
           @ (case r of None \<Rightarrow> []
              | Some x \<Rightarrow> Collected ep (fst x)
                  # (if init_random_episodes cfg \<le> int ep then [TrainAgent ep] else []))"
proof -
  obtain ts0 e where r: "env_reset R (env st) = (ts0, e)"
    by (cases "env_reset R (env st)")
  obtain cevs res where c: "collect R cfg ep fuel ts0 0 (st\<lparr>env := e\<rparr>) = (cevs, res)"
    by (cases "collect R cfg ep fuel ts0 0 (st\<lparr>env := e\<rparr>)")
  have "fst (episode_body R cfg fuel ep st)
         = (EnvReset ep (ts_last R ts0) # cevs)
           @ (case res of None \<Rightarrow> []
              | Some x \<Rightarrow> Collected ep (fst x)
                  # (if init_random_episodes cfg \<le> int ep then [TrainAgent ep] else []))"
    using r c by (simp add: episode_body_def split: option.splits prod.splits)
  then show ?thesis using c by blast
qed

lemma reset_collect_ordered:
  fixes R :: "('e, 'ts, 'obs, 'a, 'ag, 'buf, 'r, 'arr) rl_deps"
  assumes c: "collect R cfg ep fuel ts0 0 st0 = (cevs, r)"
    and e: "EnvReset ep b # cevs = pre @ x # post" and q: "needs_predecessor x"
  shows "\<exists>pre' y. pre = pre' @ [y] \<and> directly_after R cfg y x"
proof (rule adjacent_append [where Q = needs_predecessor and P = "directly_after R cfg"
      and xs = "[EnvReset ep b]" and ys = cevs, OF _ _ _ q])
  fix pre :: "'a rl_event list" and x post
  assume "[EnvReset ep b] = pre @ x # post" "needs_predecessor x"
  then show "\<exists>pre' y. pre = pre' @ [y] \<and> directly_after R cfg y x"
    by (auto simp add: Cons_eq_append_conv)
next
  fix pre x post
  assume "cevs = pre @ x # post" "needs_predecessor x"
  then show "\<exists>pre' y. pre = pre' @ [y] \<and> directly_after R cfg y x"
    using collect_ordered [of R cfg ep fuel ts0 0 st0 pre x post] c by simp
next
  show "[EnvReset ep b] @ cevs = pre @ x # post" using e by simp
qed

lemma episode_body_ordered:
  assumes e: "fst (episode_body R cfg fuel ep st) = pre @ x # post" and q: "needs_predecessor x"
  shows "\<exists>pre' y. pre = pre' @ [y] \<and> directly_after R cfg y x"
proof -
  from episode_body_trace [of R cfg ep fuel st] obtain ts0 st0 cevs r where
    c: "collect R cfg ep fuel ts0 0 st0 = (cevs, r)"
    and t: "fst (episode_body R cfg fuel ep st)
         = (EnvReset ep (ts_last R ts0) # cevs)
           @ (case r of None \<Rightarrow> []
              | Some x \<Rightarrow> Collected ep (fst x)
                  # (if init_random_episodes cfg \<le> int ep then [TrainAgent ep] else []))"
    by blast
  let ?A = "EnvReset ep (ts_last R ts0) # cevs"
  have A: "\<And>pre x post. ?A = pre @ x # post \<Longrightarrow> needs_predecessor x \<Longrightarrow>
             \<exists>pre' y. pre = pre' @ [y] \<and> directly_after R cfg y x"
    using reset_collect_ordered [OF c] by blast
  show ?thesis
  proof (cases r)
    case None
    then have "?A = pre @ x # post" using e t by simp
    then show ?thesis using A q by blast
  next
    case (Some res)
    let ?C = "Collected ep (fst res)"
    have last: "\<exists>pre' y. ?A = pre' @ [y] \<and> directly_after R cfg y ?C"
    proof -
      have "collect R cfg ep fuel ts0 0 st0 = (cevs, Some res)" using c Some by simp
      from collect_end [OF this] show ?thesis
      proof (elim disjE conjE exE)
        assume "cevs = []" "ts_last R ts0"
        then have "?A = [] @ [EnvReset ep True]" by simp
        moreover have "directly_after R cfg (EnvReset ep True) ?C" by simp
        ultimately show ?thesis by blast
      next
        fix p a assume "cevs = p @ [EnvStep ep a True]"
        then have "?A = (EnvReset ep (ts_last R ts0) # p) @ [EnvStep ep a True]" by simp
        moreover have "directly_after R cfg (EnvStep ep a True) ?C" by simp
        ultimately show ?thesis by blast
      qed
    qed
    have AC: "\<And>pre x post. ?A @ [?C] = pre @ x # post \<Longrightarrow> needs_predecessor x \<Longrightarrow>
             \<exists>pre' y. pre = pre' @ [y] \<and> directly_after R cfg y x"
    proof -
      fix pre x post
      assume 1: "?A @ [?C] = pre @ x # post" and 2: "needs_predecessor x"
      show "\<exists>pre' y. pre = pre' @ [y] \<and> directly_after R cfg y x"
      proof (rule adjacent_snoc [where Q = needs_predecessor and P = "directly_after R cfg"
            and xs = ?A and c = ?C, OF _ _ 1 2])
        fix pre x post
        assume "?A = pre @ x # post" "needs_predecessor x"
        then show "\<exists>pre' y. pre = pre' @ [y] \<and> directly_after R cfg y x" by (rule A)
      next
        show "\<exists>pre' y. ?A = pre' @ [y] \<and> directly_after R cfg y ?C" by (rule last)
      qed
    qed
    show ?thesis
    proof (cases "init_random_episodes cfg \<le> int ep")
      case False
      then have "?A @ [?C] = pre @ x # post" using e t Some by simp
      then show ?thesis using AC q by blast
    next
      case True
      then have 1: "(?A @ [?C]) @ [TrainAgent ep] = pre @ x # post" using e t Some by simp
      show ?thesis
      proof (rule adjacent_snoc [where Q = needs_predecessor and P = "directly_after R cfg"
            and xs = "?A @ [?C]" and c = "TrainAgent ep", OF _ _ 1 q])
        fix pre x post
        assume "?A @ [?C] = pre @ x # post" "needs_predecessor x"
        then show "\<exists>pre' y. pre = pre' @ [y] \<and> directly_after R cfg y x" by (rule AC)
      next
        have "directly_after R cfg ?C (TrainAgent ep)" by simp
        then show "\<exists>pre' y. ?A @ [?C] = pre' @ [y] \<and> directly_after R cfg y (TrainAgent ep)"
          by blast
      qed
    qed
  qed
qed

lemma episode_body_events:
  assumes "ev \<in> set (fst (episode_body R cfg fuel ep st))"
  shows "(\<exists>b. ev = EnvReset ep b)
       \<or> (\<exists>a. ev = RandomAction ep (- 1) 1 (action_spec_shape R) (action_spec_dtype R) a
               \<and> int ep < init_random_episodes cfg)
       \<or> (\<exists>a. ev = PolicyAction ep a \<and> init_random_episodes cfg \<le> int ep)
       \<or> (\<exists>a b. ev = EnvStep ep a b)
       \<or> (\<exists>t. ev = Collected ep t)
       \<or> (ev = TrainAgent ep \<and> init_random_episodes cfg \<le> int ep)"
proof -
  from episode_body_trace [of R cfg ep fuel st] obtain ts0 st0 cevs r where
    c: "collect R cfg ep fuel ts0 0 st0 = (cevs, r)"
    and t: "fst (episode_body R cfg fuel ep st)
         = (EnvReset ep (ts_last R ts0) # cevs)
           @ (case r of None \<Rightarrow> []
              | Some x \<Rightarrow> Collected ep (fst x)
                  # (if init_random_episodes cfg \<le> int ep then [TrainAgent ep] else []))"
    by blast
  from assms consider "ev = EnvReset ep (ts_last R ts0)" | "ev \<in> set cevs"
    | "\<exists>t. ev = Collected ep t" | "ev = TrainAgent ep" "init_random_episodes cfg \<le> int ep"
    unfolding t by (auto split: option.splits if_splits)
  then show ?thesis
  proof cases
    case 2
    then have "ev \<in> set (fst (collect R cfg ep fuel ts0 0 st0))" using c by simp
    from collect_events [OF this] show ?thesis by blast
  qed blast+
qed

lemma episode_body_train_count:
  "length (filter (\<lambda>ev. ev = TrainAgent ep') (fst (episode_body R cfg fuel ep st)))
     \<le> (if ep' = ep then 1 else 0)"
proof -
  from episode_body_trace [of R cfg ep fuel st] obtain ts0 st0 cevs r where
    c: "collect R cfg ep fuel ts0 0 st0 = (cevs, r)"
    and t: "fst (episode_body R cfg fuel ep st)
         = (EnvReset ep (ts_last R ts0) # cevs)
           @ (case r of None \<Rightarrow> []
              | Some x \<Rightarrow> Collected ep (fst x)
                  # (if init_random_episodes cfg \<le> int ep then [TrainAgent ep] else []))"
    by blast
  have "\<And>ev. ev \<in> set cevs \<Longrightarrow> ev \<noteq> TrainAgent ep'"
  proof -
    fix ev assume "ev \<in> set cevs"
    then have "ev \<in> set (fst (collect R cfg ep fuel ts0 0 st0))" using c by simp
    from collect_events [OF this] show "ev \<noteq> TrainAgent ep'" by auto
  qed
  then have "filter (\<lambda>ev. ev = TrainAgent ep') cevs = []"
    by (simp add: filter_empty_conv)
  then show ?thesis unfolding t by (simp split: option.splits)
qed

text \<open>All episodes.\<close>

lemma episodes_ordered:
  assumes "fst (episodes R cfg fuel eps st) = pre @ x # post" and "needs_predecessor x"
  shows "\<exists>pre' y. pre = pre' @ [y] \<and> directly_after R cfg y x"
  using assms
proof (induction eps arbitrary: st pre x post)
  case Nil
  then show ?case by simp
next
  case (Cons ep rest)
  obtain evs r where b: "episode_body R cfg fuel ep st = (evs, r)"
    by (cases "episode_body R cfg fuel ep st")
  have B: "\<And>pre x post. evs = pre @ x # post \<Longrightarrow> needs_predecessor x \<Longrightarrow>
             \<exists>pre' y. pre = pre' @ [y] \<and> directly_after R cfg y x"
    using episode_body_ordered [of R cfg fuel ep st] b by simp
  show ?case
  proof (cases r)
    case None
    then have "evs = pre @ x # post" using Cons.prems(1) b by simp
    then show ?thesis using B Cons.prems(2) by blast
  next
    case (Some st')
    then have e: "evs @ fst (episodes R cfg fuel rest st') = pre @ x # post"
      using Cons.prems(1) b by simp
    show ?thesis
    proof (rule adjacent_append [where Q = needs_predecessor and P = "directly_after R cfg",
          OF _ _ e Cons.prems(2)])
      fix pre x post
      assume "evs = pre @ x # post" "needs_predecessor x"
      then show "\<exists>pre' y. pre = pre' @ [y] \<and> directly_after R cfg y x" by (rule B)
    next
      fix pre x post
      assume "fst (episodes R cfg fuel rest st') = pre @ x # post" "needs_predecessor x"
      then show "\<exists>pre' y. pre = pre' @ [y] \<and> directly_after R cfg y x" by (rule Cons.IH)
    qed
  qed
qed

lemma episodes_events:
  assumes "ev \<in> set (fst (episodes R cfg fuel eps st))"
  shows "\<exists>ep\<in>set eps. ev \<in> {EnvReset ep True, EnvReset ep False}
       \<or> (\<exists>a. ev = RandomAction ep (- 1) 1 (action_spec_shape R) (action_spec_dtype R) a
               \<and> int ep < init_random_episodes cfg)
       \<or> (\<exists>a. ev = PolicyAction ep a \<and> init_random_episodes cfg \<le> int ep)
       \<or> (\<exists>a b. ev = EnvStep ep a b)
       \<or> (\<exists>t. ev = Collected ep t)
       \<or> (ev = TrainAgent ep \<and> init_random_episodes cfg \<le> int ep)"
  using assms
proof (induction eps arbitrary: st)
  case Nil
  then show ?case by simp
next
  case (Cons ep rest)
  obtain evs r where b: "episode_body R cfg fuel ep st = (evs, r)"
    by (cases "episode_body R cfg fuel ep st")
  have B: "ev \<in> set evs \<Longrightarrow> ?case"
  proof -
    assume "ev \<in> set evs"
    then have "ev \<in> set (fst (episode_body R cfg fuel ep st))" using b by simp
    from episode_body_events [OF this] show ?case by auto
  qed
  show ?case
  proof (cases r)
    case None
    then have "ev \<in> set evs" using Cons.prems b by simp
    then show ?thesis by (rule B)
  next
    case (Some st')
    then consider "ev \<in> set evs" | "ev \<in> set (fst (episodes R cfg fuel rest st'))"
      using Cons.prems b by auto
    then show ?thesis
    proof cases
      case 1
      then show ?thesis by (rule B)
    next
      case 2
      from Cons.IH [OF this] show ?thesis by auto
    qed
  qed
qed

lemma episodes_train_count:
  assumes "distinct eps"
  shows "length (filter (\<lambda>ev. ev = TrainAgent ep') (fst (episodes R cfg fuel eps st)))
           \<le> (if ep' \<in> set eps then 1 else 0)"
  using assms
proof (induction eps arbitrary: st)
  case Nil
  then show ?case by simp
next
  case (Cons ep rest)
  obtain evs r where b: "episode_body R cfg fuel ep st = (evs, r)"
    by (cases "episode_body R cfg fuel ep st")
  have B: "length (filter (\<lambda>ev. ev = TrainAgent ep') evs) \<le> (if ep' = ep then 1 else 0)"
    using episode_body_train_count [of ep' R cfg fuel ep st] b by simp
  show ?case
  proof (cases r)
    case None
    then show ?thesis using B b by (auto split: if_splits)
  next
    case (Some st')
    have I: "length (filter (\<lambda>ev. ev = TrainAgent ep') (fst (episodes R cfg fuel rest st')))
           \<le> (if ep' \<in> set rest then 1 else 0)"
      using Cons.IH [of st'] Cons.prems by simp
    have "ep \<notin> set rest" using Cons.prems by simp
    then show ?thesis using B I b Some by (auto split: if_splits)
  qed
qed

lemma rl_train_trace:
  "fst (rl_train S R cfg fuel env0 agent0 buffer0 g) = []
   \<or> (\<exists>st. fst (rl_train S R cfg fuel env0 agent0 buffer0 g)
              = fst (episodes R cfg fuel [0..<nat (num_train_episodes cfg)] st))"
proof (cases "make_reproducible S (rl_random_seed cfg) g")
  case (Inl e)
  then show ?thesis by (simp add: rl_train_def)
next
  case (Inr g1)
  let ?st = "\<lparr>env = env0, agent = agent0, replay_buffer = buffer0,
              rng = np_rng (set_cudnn_flags g1), global_step = 0\<rparr>"
  show ?thesis
  proof (cases "action_repeat cfg = 0")
    case True
    then show ?thesis using Inr by (simp add: rl_train_def Let_def)
  next
    case False
    then have "fst (rl_train S R cfg fuel env0 agent0 buffer0 g)
                 = fst (episodes R cfg fuel [0..<nat (num_train_episodes cfg)] ?st)"
      using Inr by (simp add: rl_train_def Let_def split: prod.splits option.splits)
    then show ?thesis by blast
  qed
qed

text \<open>
  Claim C6. Among the steps of a run of the driver: the policy is consulted only in
  episodes from \<open>cfg.init_random_episodes\<close> on; every random draw belongs to an episode
  below it and is a draw between -1 and 1 with the shape and dtype of the environment's
  action spec; in an episode below it every step of the environment takes the action of
  the random draw made directly before it. The agent is trained only in episodes from
  \<open>cfg.init_random_episodes\<close> on, at most once per episode, and directly after the end of
  the same episode's collection loop, which in turn comes directly after a time step that
  was the last one of that episode.
\<close>

theorem warmup_random_and_train_after_collection:
  fixes R :: "('e, 'ts, 'obs, 'a, 'ag, 'buf, 'r, 'arr) rl_deps"
  assumes "fst (rl_train S R cfg fuel env0 agent0 buffer0 g) = evs"
  shows "(\<forall>ep a. PolicyAction ep a \<in> set evs \<longrightarrow> init_random_episodes cfg \<le> int ep)
       \<and> (\<forall>ep lo hi sh dt a. RandomAction ep lo hi sh dt a \<in> set evs \<longrightarrow>
             int ep < init_random_episodes cfg \<and> lo = - 1 \<and> hi = 1
             \<and> sh = action_spec_shape R \<and> dt = action_spec_dtype R)
       \<and> (\<forall>pre ep a b post. evs = pre @ EnvStep ep a b # post
             \<and> int ep < init_random_episodes cfg \<longrightarrow>
             (\<exists>pre'. pre = pre'
                @ [RandomAction ep (- 1) 1 (action_spec_shape R) (action_spec_dtype R) a]))
       \<and> (\<forall>ep. TrainAgent ep \<in> set evs \<longrightarrow> init_random_episodes cfg \<le> int ep)
       \<and> (\<forall>ep. length (filter (\<lambda>ev. ev = TrainAgent ep) evs) \<le> 1)
       \<and> (\<forall>pre ep post. evs = pre @ TrainAgent ep # post \<longrightarrow>
             (\<exists>pre' t. pre = pre' @ [Collected ep t]))
       \<and> (\<forall>pre ep t post. evs = pre @ Collected ep t # post \<longrightarrow>
             (\<exists>pre'. pre = pre' @ [EnvReset ep True] \<or> (\<exists>a. pre = pre' @ [EnvStep ep a True])))"
proof -
  let ?eps = "[0..<nat (num_train_episodes cfg)]"
  from rl_train_trace [of S R cfg fuel env0 agent0 buffer0 g] assms
  consider "evs = []" | st where "evs = fst (episodes R cfg fuel ?eps st)"
    by auto
  then show ?thesis
  proof cases
    case 1
    then show ?thesis by simp
  next
    case 2
    have ev: "\<And>ev. ev \<in> set evs \<Longrightarrow>
       \<exists>ep\<in>set ?eps. ev \<in> {EnvReset ep True, EnvReset ep False}
       \<or> (\<exists>a. ev = RandomAction ep (- 1) 1 (action_spec_shape R) (action_spec_dtype R) a
               \<and> int ep < init_random_episodes cfg)
       \<or> (\<exists>a. ev = PolicyAction ep a \<and> init_random_episodes cfg \<le> int ep)
       \<or> (\<exists>a b. ev = EnvStep ep a b)
       \<or> (\<exists>t. ev = Collected ep t)
       \<or> (ev = TrainAgent ep \<and> init_random_episodes cfg \<le> int ep)"
      unfolding 2 by (rule episodes_events)
    have ord: "\<And>pre x post. evs = pre @ x # post \<Longrightarrow> needs_predecessor x \<Longrightarrow>
       \<exists>pre' y. pre = pre' @ [y] \<and> directly_after R cfg y x"
      unfolding 2 by (rule episodes_ordered)
    have a: "\<forall>ep a. PolicyAction ep a \<in> set evs \<longrightarrow> init_random_episodes cfg \<le> int ep"
      using ev by fastforce
    have b: "\<forall>ep lo hi sh dt a. RandomAction ep lo hi sh dt a \<in> set evs \<longrightarrow>
             int ep < init_random_episodes cfg \<and> lo = - 1 \<and> hi = 1
             \<and> sh = action_spec_shape R \<and> dt = action_spec_dtype R"
      using ev by fastforce
    have c: "\<forall>pre ep a b post. evs = pre @ EnvStep ep a b # post
             \<and> int ep < init_random_episodes cfg \<longrightarrow>
             (\<exists>pre'. pre = pre'
                @ [RandomAction ep (- 1) 1 (action_spec_shape R) (action_spec_dtype R) a])"
    proof (intro allI impI)
      fix pre ep a b post
      assume h: "evs = pre @ EnvStep ep a b # post \<and> int ep < init_random_episodes cfg"
      then obtain pre' y where "pre = pre' @ [y]" "directly_after R cfg y (EnvStep ep a b)"
        using ord [of pre "EnvStep ep a b" post] by auto
      then show "\<exists>pre'. pre = pre'
                @ [RandomAction ep (- 1) 1 (action_spec_shape R) (action_spec_dtype R) a]"
        using h by simp
    qed
    have d: "\<forall>ep. TrainAgent ep \<in> set evs \<longrightarrow> init_random_episodes cfg \<le> int ep"
      using ev by fastforce
    have e: "\<forall>ep. length (filter (\<lambda>ev. ev = TrainAgent ep) evs) \<le> 1"
    proof
      fix ep
      have "length (filter (\<lambda>ev. ev = TrainAgent ep) (fst (episodes R cfg fuel ?eps st)))
              \<le> (if ep \<in> set ?eps then 1 else 0)"
        by (rule episodes_train_count) simp
      then show "length (filter (\<lambda>ev. ev = TrainAgent ep) evs) \<le> 1"
        unfolding 2 by (simp split: if_splits)
    qed
    have f: "\<forall>pre ep post. evs = pre @ TrainAgent ep # post \<longrightarrow>
             (\<exists>pre' t. pre = pre' @ [Collected ep t])"
    proof (intro allI impI)
      fix pre ep post
      assume "evs = pre @ TrainAgent ep # post"
      then obtain pre' y where p: "pre = pre' @ [y]" and "directly_after R cfg y (TrainAgent ep)"
        using ord [of pre "TrainAgent ep" post] by auto
      then have "\<exists>t. y = Collected ep t" by (cases y) simp_all
      then show "\<exists>pre' t. pre = pre' @ [Collected ep t]" using p by blast
    qed
    have g: "\<forall>pre ep t post. evs = pre @ Collected ep t # post \<longrightarrow>
             (\<exists>pre'. pre = pre' @ [EnvReset ep True] \<or> (\<exists>a. pre = pre' @ [EnvStep ep a True]))"
    proof (intro allI impI)
      fix pre ep t post
      assume "evs = pre @ Collected ep t # post"
      then obtain pre' y where p: "pre = pre' @ [y]" and "directly_after R cfg y (Collected ep t)"
        using ord [of pre "Collected ep t" post] by auto
      then have "y = EnvReset ep True \<or> (\<exists>a. y = EnvStep ep a True)" by (cases y) simp_all
      then show "\<exists>pre'. pre = pre' @ [EnvReset ep True] \<or> (\<exists>a. pre = pre' @ [EnvStep ep a True])"
        using p by blast
    qed
    show ?thesis using a b c d e f g by blast
  qed
qed

lemmas demo_rl_defs = rl_train_def make_reproducible_def set_seed_everywhere_def
  set_cudnn_flags_def demo_seeding_def demo_globals_def demo_rl_deps_def demo_rl_cfg_def
  episode_body_def choose_action_def Let_def

lemma demo_rl_trace:
  "fst (rl_train demo_seeding demo_rl_deps demo_rl_cfg 5 0 0 0 (demo_globals n))
     = [EnvReset 0 False,
        RandomAction 0 (- 1) 1 [1] ''float32'' 1, EnvStep 0 1 False,
        RandomAction 0 (- 1) 1 [1] ''float32'' (- 1), EnvStep 0 (- 1) True,
        Collected 0 2,
        EnvReset 1 False,
        RandomAction 1 (- 1) 1 [1] ''float32'' 0, EnvStep 1 0 False,
        RandomAction 1 (- 1) 1 [1] ''float32'' 1, EnvStep 1 1 True,
        Collected 1 2,
        EnvReset 2 False,
        PolicyAction 2 10, EnvStep 2 10 False,
        PolicyAction 2 11, EnvStep 2 11 True,
        Collected 2 2, TrainAgent 2]"
  by (simp add: demo_rl_defs upt_rec [of _ "numeral _"] upt_rec [of 0 "Suc _"] eval_nat_numeral)


text \<open>The concrete run of three episodes: two random ones, then one with the policy.\<close>

theorem warmup_random_and_train_after_collection_witness:
  "fst (rl_train demo_seeding demo_rl_deps demo_rl_cfg 5 0 0 0 (demo_globals 7))
     = [EnvReset 0 False,
        RandomAction 0 (- 1) 1 [1] ''float32'' 1, EnvStep 0 1 False,
        RandomAction 0 (- 1) 1 [1] ''float32'' (- 1), EnvStep 0 (- 1) True,
        Collected 0 2,
        EnvReset 1 False,
        RandomAction 1 (- 1) 1 [1] ''float32'' 0, EnvStep 1 0 False,
        RandomAction 1 (- 1) 1 [1] ''float32'' 1, EnvStep 1 1 True,
        Collected 1 2,
        EnvReset 2 False,
        PolicyAction 2 10, EnvStep 2 10 False,
        PolicyAction 2 11, EnvStep 2 11 True,
        Collected 2 2, TrainAgent 2]
   \<and> init_random_episodes demo_rl_cfg \<le> int 2
   \<and> int 1 < init_random_episodes demo_rl_cfg
   \<and> length (filter (\<lambda>ev. ev = TrainAgent 2)
        (fst (rl_train demo_seeding demo_rl_deps demo_rl_cfg 5 0 0 0 (demo_globals 7)))) \<le> 1
   \<and> length (filter (\<lambda>ev. ev = TrainAgent 1)
        (fst (rl_train demo_seeding demo_rl_deps demo_rl_cfg 5 0 0 0 (demo_globals 7)))) \<le> 1"
proof -
  let ?tr = "[EnvReset 0 False,
        RandomAction 0 (- 1) 1 [1] ''float32'' 1, EnvStep 0 1 False,
        RandomAction 0 (- 1) 1 [1] ''float32'' (- 1), EnvStep 0 (- 1) True,
        Collected 0 2,
        EnvReset 1 False,
        RandomAction 1 (- 1) 1 [1] ''float32'' 0, EnvStep 1 0 False,
        RandomAction 1 (- 1) 1 [1] ''float32'' 1, EnvStep 1 1 True,
        Collected 1 2,
        EnvReset 2 False,
        PolicyAction 2 10, EnvStep 2 10 False,
        PolicyAction 2 11, EnvStep 2 11 True,
        Collected 2 2, TrainAgent (2::nat)] :: int rl_event list"
  have t: "fst (rl_train demo_seeding demo_rl_deps demo_rl_cfg 5 0 0 0 (demo_globals 7)) = ?tr"
    by (rule demo_rl_trace)
  note T = warmup_random_and_train_after_collection [OF t]
  have p: "PolicyAction 2 10 \<in> set ?tr" by simp
  have r: "RandomAction 1 (- 1) 1 [1] ''float32'' 0 \<in> set ?tr" by simp
  have 1: "init_random_episodes demo_rl_cfg \<le> int 2"
    using T [THEN conjunct1, rule_format, OF p] .
  have 2: "int 1 < init_random_episodes demo_rl_cfg"
    using T [THEN conjunct2, THEN conjunct1, rule_format, OF r] by (rule conjunct1)
  note C = T [THEN conjunct2, THEN conjunct2, THEN conjunct2, THEN conjunct2, THEN conjunct1]
  have 3: "length (filter (\<lambda>ev. ev = TrainAgent 2) ?tr) \<le> 1"
    using C [rule_format, of 2] .
  have 4: "length (filter (\<lambda>ev. ev = TrainAgent 1) ?tr) \<le> 1"
    using C [rule_format, of 1] .
  show ?thesis unfolding t using 1 2 3 4 by (intro conjI) (rule refl)
qed

subsection \<open>The backend flag\<close>

text \<open>
  The two assignments of the driver set the backend attributes \<open>determinstic\<close> and
  \<open>benchmark\<close>; the attribute \<open>deterministic\<close> keeps the value it had.
\<close>

lemma driver_sets_misspelled_flag:
  "cudnn (set_cudnn_flags g) = (cudnn g)(''determinstic'' \<mapsto> True, ''benchmark'' \<mapsto> False)
   \<and> cudnn (set_cudnn_flags g) ''determinstic'' = Some True
   \<and> cudnn (set_cudnn_flags g) ''deterministic'' = cudnn g ''deterministic''"
  by (simp add: set_cudnn_flags_def)

end
